theory Spec2Isabelle
  imports Complex_Main
begin

section \<open>Strings, truthiness and text\<close>

text \<open>
  The recurring-analysis job is the Lambda handler of the TypeScript source
  (\<^verbatim>\<open>handler\<close> with its helpers \<^verbatim>\<open>getQueryDetails\<close>, \<^verbatim>\<open>analyzeSentimentForTerm\<close>,
  \<^verbatim>\<open>getSubtopics\<close>, \<^verbatim>\<open>triggerEmailNotification\<close>, \<^verbatim>\<open>triggerAddSubtopicLambda\<close>, ...).
  A JavaScript string (a topic name, a phrase, an address, a configuration value) is
  the list of its UTF-16 code units, so that \<^const>\<open>length\<close> is \<^verbatim>\<open>.length\<close>,
  \<^const>\<open>take\<close> is \<^verbatim>\<open>substring(0, n)\<close> and equality is \<^verbatim>\<open>===\<close>; \<^term>\<open>str s\<close> is
  the string written with the characters \<^term>\<open>s\<close>.  Post texts are lists of Unicode code
  points, because the byte truncation of a post text depends on multi-byte encodings.
\<close>

type_synonym jsstring = "nat list"

type_synonym ustring = "nat list"

definition str :: "string \<Rightarrow> jsstring" where
  "str s = map of_char s"

text \<open>JavaScript truthiness of an optional string: \<^verbatim>\<open>undefined\<close> and \<^verbatim>\<open>''\<close> are falsy.\<close>

definition truthy :: "jsstring option \<Rightarrow> bool" where
  "truthy v = (case v of None \<Rightarrow> False | Some s \<Rightarrow> s \<noteq> [])"

text \<open>White space and line terminators removed by \<^verbatim>\<open>String.prototype.trim\<close>.\<close>

definition is_js_space :: "nat \<Rightarrow> bool" where
  "is_js_space c =
     (c = 9 \<or> c = 10 \<or> c = 11 \<or> c = 12 \<or> c = 13 \<or> c = 32 \<or> c = 160 \<or> c = 0x1680
      \<or> (0x2000 \<le> c \<and> c \<le> 0x200A) \<or> c = 0x2028 \<or> c = 0x2029 \<or> c = 0x202F
      \<or> c = 0x205F \<or> c = 0x3000 \<or> c = 0xFEFF)"

definition trim :: "jsstring \<Rightarrow> jsstring" where
  "trim s = rev (dropWhile is_js_space (rev (dropWhile is_js_space s)))"

text \<open>\<^verbatim>\<open>!postText || postText.trim() === ''\<close> on a post text.\<close>

definition no_text :: "ustring option \<Rightarrow> bool" where
  "no_text t = (case t of None \<Rightarrow> True | Some cs \<Rightarrow> cs = [] \<or> list_all is_js_space cs)"

text \<open>
  \<^verbatim>\<open>String.prototype.toLowerCase\<close> follows the case mappings of the Unicode Character
  Database; it is a function of the platform, taken from the environment below.  On a
  string of Latin-1 code units it is the following function.
\<close>

definition lower_latin1 :: "jsstring \<Rightarrow> jsstring" where
  "lower_latin1 s =
     map (\<lambda>n. if (65 \<le> n \<and> n \<le> 90) \<or> (192 \<le> n \<and> n \<le> 222 \<and> n \<noteq> 215) then n + 32 else n) s"

section \<open>UTF-8 buffers and the byte truncation\<close>

text \<open>
  \<^verbatim>\<open>Buffer.from(s, 'utf8')\<close>, \<^verbatim>\<open>Buffer.byteLength(s, 'utf8')\<close> and
  \<^verbatim>\<open>buf.toString('utf8')\<close> are functions of the Node platform.  They are modelled as the
  UTF-8 encoder and the replacing UTF-8 decoder of the Encoding Standard, which Node
  implements: a code point that is not a scalar value (a lone surrogate) is written as
  the three bytes of U+FFFD, and on reading every maximal ill-formed or incomplete byte
  sequence becomes one U+FFFD.  Bytes are natural numbers below 256.
\<close>

definition MAX_COMPREHEND_BYTES :: nat where
  "MAX_COMPREHEND_BYTES = 4990"

definition utf8_encode_cp :: "nat \<Rightarrow> nat list" where
  "utf8_encode_cp c =
     (if c < 0x80 then [c]
      else if c < 0x800 then [0xC0 + c div 64, 0x80 + c mod 64]
      else if (0xD800 \<le> c \<and> c \<le> 0xDFFF) \<or> 0x10FFFF < c then [0xEF, 0xBF, 0xBD]
      else if c < 0x10000 then
        [0xE0 + c div 4096, 0x80 + (c div 64) mod 64, 0x80 + c mod 64]
      else [0xF0 + c div 262144, 0x80 + (c div 4096) mod 64,
            0x80 + (c div 64) mod 64, 0x80 + c mod 64])"

definition Buffer_from :: "ustring \<Rightarrow> nat list" where
  "Buffer_from s = concat (map utf8_encode_cp s)"

definition byteLength :: "ustring \<Rightarrow> nat" where
  "byteLength s = length (Buffer_from s)"

definition is_cont :: "nat \<Rightarrow> bool" where
  "is_cont b = (0x80 \<le> b \<and> b \<le> 0xBF)"

text \<open>Range allowed for the byte after the lead byte of a three- or four-byte sequence.\<close>

definition second_ok :: "nat \<Rightarrow> nat \<Rightarrow> bool" where
  "second_ok b c =
     (if b = 0xE0 then 0xA0 \<le> c \<and> c \<le> 0xBF
      else if b = 0xED then 0x80 \<le> c \<and> c \<le> 0x9F
      else if b = 0xF0 then 0x90 \<le> c \<and> c \<le> 0xBF
      else if b = 0xF4 then 0x80 \<le> c \<and> c \<le> 0x8F
      else 0x80 \<le> c \<and> c \<le> 0xBF)"

fun toString_utf8 :: "nat list \<Rightarrow> ustring" where
  "toString_utf8 [] = []"
| "toString_utf8 (b # bs) =
     (if b < 0x80 then b # toString_utf8 bs
      else if 0xC2 \<le> b \<and> b \<le> 0xDF then
        (case bs of
           [] \<Rightarrow> [0xFFFD]
         | c1 # r1 \<Rightarrow>
             if is_cont c1 then ((b - 0xC0) * 64 + (c1 - 0x80)) # toString_utf8 r1
             else 0xFFFD # toString_utf8 bs)
      else if 0xE0 \<le> b \<and> b \<le> 0xEF then
        (case bs of
           [] \<Rightarrow> [0xFFFD]
         | c1 # r1 \<Rightarrow>
             if second_ok b c1 then
               (case r1 of
                  [] \<Rightarrow> [0xFFFD]
                | c2 # r2 \<Rightarrow>
                    if is_cont c2
                    then ((b - 0xE0) * 4096 + (c1 - 0x80) * 64 + (c2 - 0x80)) # toString_utf8 r2
                    else 0xFFFD # toString_utf8 r1)
             else 0xFFFD # toString_utf8 bs)
      else if 0xF0 \<le> b \<and> b \<le> 0xF4 then
        (case bs of
           [] \<Rightarrow> [0xFFFD]
         | c1 # r1 \<Rightarrow>
             if second_ok b c1 then
               (case r1 of
                  [] \<Rightarrow> [0xFFFD]
                | c2 # r2 \<Rightarrow>
                    if is_cont c2 then
                      (case r2 of
                         [] \<Rightarrow> [0xFFFD]
                       | c3 # r3 \<Rightarrow>
                           if is_cont c3
                           then ((b - 0xF0) * 262144 + (c1 - 0x80) * 4096
                                 + (c2 - 0x80) * 64 + (c3 - 0x80)) # toString_utf8 r3
                           else 0xFFFD # toString_utf8 r2)
                    else 0xFFFD # toString_utf8 r1)
             else 0xFFFD # toString_utf8 bs)
      else 0xFFFD # toString_utf8 bs)"

text \<open>
  The truncation written twice in the source (before sentiment scoring and before
  key-phrase extraction):
  \<^verbatim>\<open>if (byteLength > MAX_COMPREHEND_BYTES) textToAnalyze = buffer.slice(0, MAX_COMPREHEND_BYTES).toString('utf8')\<close>.
\<close>

definition textToAnalyze :: "ustring \<Rightarrow> ustring" where
  "textToAnalyze postText =
     (if byteLength postText > MAX_COMPREHEND_BYTES
      then toString_utf8 (take MAX_COMPREHEND_BYTES (Buffer_from postText))
      else postText)"

section \<open>Data model\<close>

text \<open>A rejected external call carries the message of the thrown value.\<close>

type_synonym 'a outcome = "jsstring + 'a"

record QueryDetails =
  QueryID :: int
  Topic :: jsstring
  Email :: jsstring
  NumIntervals :: int
  PostsToAnalyze :: int
  IntervalLength :: int
  IntervalUnit :: jsstring
  CreatedAt :: int
  Status :: "jsstring option"

text \<open>A \<^verbatim>\<open>PostView\<close>: only its URI and the optional \<^verbatim>\<open>record.text\<close> are read.\<close>

record post =
  uri :: jsstring
  record_text :: "ustring option"

text \<open>
  Confidence scores are IEEE doubles.  A double is the real number it denotes; the sum
  and the quotient of two doubles are the exact result rounded to a double, by the
  rounding function of the platform (\<^verbatim>\<open>roundToDouble\<close> of the environment below).
\<close>

record SentimentScore =
  Positive :: "real option"
  Negative :: "real option"
  Neutral :: "real option"
  Mixed :: "real option"

text \<open>The answer of \<^verbatim>\<open>DetectSentimentCommand\<close>.\<close>

record sentimentData =
  Sentiment :: "jsstring option"
  SentimentScore :: "SentimentScore option"

text \<open>The \<^verbatim>\<open>sentimentAnalysis\<close> field added to a post (\<^verbatim>\<open>PostWithAnalysis\<close>).\<close>

record sentimentAnalysis =
  sentiment :: "jsstring option"
  scores :: "SentimentScore option"
  error :: "jsstring option"

record SentimentSummary =
  summary_queryId :: int
  summary_topic :: jsstring
  totalPostsAnalyzed :: nat
  positivePosts :: nat
  negativePosts :: nat
  neutralPosts :: nat
  mixedPosts :: nat
  avgPositiveScore :: real
  avgNegativeScore :: real
  avgNeutralScore :: real
  avgMixedScore :: real

text \<open>
  An item of the Data table.  The identifier drawn from the counter table and the clock
  readings (\<^verbatim>\<open>DataID\<close>, \<^verbatim>\<open>AnalysisTimestamp\<close>, \<^verbatim>\<open>CreatedAt\<close>) are left out; an
  attribute that an item may lack is optional.
\<close>

record item =
  item_QueryID :: int
  item_Topic :: jsstring
  MainTopic :: "jsstring option"
  PostsAnalyzed :: nat
  PositivePosts :: nat
  NegativePosts :: nat
  NeutralPosts :: nat
  MixedPosts :: nat
  AvgPositiveScore :: real
  AvgNegativeScore :: real
  AvgNeutralScore :: real
  AvgMixedScore :: real
  IsSubtopic :: "bool option"

datatype json =
    JNull
  | JBool bool
  | JNum real
  | JStr jsstring
  | JArr "json list"
  | JObj "(jsstring \<times> json) list"

text \<open>The answer of a synchronous Lambda invocation, its payload already decoded to text.\<close>

record invokeResponse =
  FunctionError :: "jsstring option"
  Payload :: "jsstring option"

datatype deleteOutcome = Deleted | ResourceNotFoundException | OtherDeleteError

text \<open>
  The value of a property of the phrase dictionary: a number, or a text (see
  \<^verbatim>\<open>phraseCounts\<close> below).
\<close>

datatype phraseCount = Count nat | Text jsstring

section \<open>The environment of one invocation and the calls it receives\<close>

text \<open>
  The process environment and the external services (DynamoDB, the feed search, the
  scorer, the scheduler, SNS, the two subtopic Lambdas) are a record of answers, one
  function per operation, keyed by the request.  The Data table itself is passed to the
  handler as a list of items; the handler reads it through one scan request, whose
  answer (rejected, or an output whose \<^verbatim>\<open>Count\<close> may be absent) is the answer of the
  service on that table.  The functions of the platform that the source calls
  (\<^verbatim>\<open>JSON.parse\<close>, the numeric coercion, \<^verbatim>\<open>toLowerCase\<close>, the order in which
  \<^verbatim>\<open>sort\<close> leaves elements that its comparator does not order consistently) are
  fields as well.  Every external call the handler issues is appended to a trace, with
  its outcome where the outcome is an effect (a stored item, a delivered message).
\<close>

record env =
  QUERIES_TABLE_NAME :: "jsstring option"
  DATA_TABLE_NAME :: "jsstring option"
  COUNTERS_TABLE_NAME_env :: "jsstring option"
  BLUESKY_HANDLE :: "jsstring option"
  BLUESKY_APP_PASSWORD :: "jsstring option"
  GET_SUBTOPICS_LAMBDA_NAME_env :: "jsstring option"
  ADD_SUBTOPIC_LAMBDA_NAME_env :: "jsstring option"
  GetCommand_Queries :: "int \<Rightarrow> jsstring \<Rightarrow> (QueryDetails option) outcome"
  QueryCommand_Queries :: "int \<Rightarrow> (QueryDetails list) outcome"
  ScanCommand_Data :: "item list \<Rightarrow> int \<Rightarrow> (nat option) outcome"
  login :: "unit outcome"
  searchPosts :: "jsstring \<Rightarrow> int \<Rightarrow> (post list) outcome"
  DetectSentimentCommand :: "ustring \<Rightarrow> sentimentData outcome"
  DetectKeyPhrasesCommand :: "ustring \<Rightarrow> ((jsstring option) list option) outcome"
  PutCommand_Data :: "item \<Rightarrow> unit outcome"
  SubscribeCommand :: "jsstring \<Rightarrow> unit outcome"
  PublishCommand :: "QueryDetails \<Rightarrow> unit outcome"
  DeleteScheduleCommand :: "int \<Rightarrow> deleteOutcome"
  Invoke_getSubtopic :: "jsstring \<Rightarrow> int \<Rightarrow> invokeResponse outcome"
  Invoke_addSubtopic :: "jsstring \<Rightarrow> int \<Rightarrow> jsstring \<Rightarrow> unit outcome"
  JSON_parse :: "jsstring \<Rightarrow> json option"
  ToNumber :: "json \<Rightarrow> real option"
  toLowerCase :: "jsstring \<Rightarrow> jsstring"
  roundToDouble :: "real \<Rightarrow> real"
  Array_sort_rank :: "(jsstring \<times> phraseCount) list \<Rightarrow> nat \<Rightarrow> nat"

datatype call =
    GetQueries int jsstring
  | QueryQueries int
  | ScanData int
  | Login
  | SearchPosts jsstring int
  | DetectSentiment ustring
  | DetectKeyPhrases ustring
  | PutData item bool
  | Subscribe jsstring bool
  | Publish QueryDetails bool
  | DeleteSchedule int deleteOutcome
  | InvokeGetSubtopic int
  | InvokeAddSubtopic int jsstring bool

definition succeeded :: "'a outcome \<Rightarrow> bool" where
  "succeeded r = (case r of Inl _ \<Rightarrow> False | Inr _ \<Rightarrow> True)"

section \<open>analyzeSentimentForTerm\<close>

text \<open>
  The callback of \<^verbatim>\<open>posts.map\<close>: a post without text gets no \<^verbatim>\<open>sentimentAnalysis\<close>;
  otherwise the (possibly truncated) text is scored, and a rejected scoring call leaves an
  analysis with the error message and no sentiment.
\<close>

definition scorePost :: "env \<Rightarrow> post \<Rightarrow> sentimentAnalysis option \<times> call list" where
  "scorePost e p =
     (case record_text p of
        None \<Rightarrow> (None, [])
      | Some postText \<Rightarrow>
          if no_text (Some postText) then (None, [])
          else
            let t = textToAnalyze postText
            in (Some (case DetectSentimentCommand e t of
                        Inr d \<Rightarrow> \<lparr>sentiment = Sentiment d, scores = SentimentScore d, error = None\<rparr>
                      | Inl msg \<Rightarrow> \<lparr>sentiment = None, scores = None, error = Some msg\<rparr>),
                [DetectSentiment t]))"

text \<open>
  The condition of the \<^verbatim>\<open>forEach\<close> body:
  \<^verbatim>\<open>p.sentimentAnalysis && !p.sentimentAnalysis.error && p.sentimentAnalysis.sentiment\<close>.
\<close>

definition counted :: "sentimentAnalysis option \<Rightarrow> bool" where
  "counted a = (case a of None \<Rightarrow> False | Some s \<Rightarrow> \<not> truthy (error s) \<and> truthy (sentiment s))"

text \<open>\<^verbatim>\<open>p.sentimentAnalysis.scores?.Positive || 0\<close> and its three siblings.\<close>

definition scoreOf :: "(SentimentScore \<Rightarrow> real option) \<Rightarrow> sentimentAnalysis \<Rightarrow> real" where
  "scoreOf f s = (case scores s of None \<Rightarrow> 0 | Some sc \<Rightarrow> (case f sc of None \<Rightarrow> 0 | Some x \<Rightarrow> x))"

text \<open>The nine running variables of the summary loop.\<close>

record tally =
  t_positivePosts :: nat
  t_negativePosts :: nat
  t_neutralPosts :: nat
  t_mixedPosts :: nat
  t_totalPositiveScore :: real
  t_totalNegativeScore :: real
  t_totalNeutralScore :: real
  t_totalMixedScore :: real
  t_analyzedCount :: nat

definition tally0 :: tally where
  "tally0 = \<lparr>t_positivePosts = 0, t_negativePosts = 0, t_neutralPosts = 0, t_mixedPosts = 0,
             t_totalPositiveScore = 0, t_totalNegativeScore = 0, t_totalNeutralScore = 0,
             t_totalMixedScore = 0, t_analyzedCount = 0\<rparr>"

definition tallyPost :: "(real \<Rightarrow> real) \<Rightarrow> tally \<Rightarrow> sentimentAnalysis option \<Rightarrow> tally" where
  "tallyPost rnd t a =
     (case a of
        None \<Rightarrow> t
      | Some s \<Rightarrow>
          if counted (Some s) then
            t\<lparr>t_analyzedCount := t_analyzedCount t + 1,
              t_totalPositiveScore := rnd (t_totalPositiveScore t + scoreOf Positive s),
              t_totalNegativeScore := rnd (t_totalNegativeScore t + scoreOf Negative s),
              t_totalNeutralScore := rnd (t_totalNeutralScore t + scoreOf Neutral s),
              t_totalMixedScore := rnd (t_totalMixedScore t + scoreOf Mixed s),
              t_positivePosts := t_positivePosts t + (if sentiment s = Some (str ''POSITIVE'') then 1 else 0),
              t_negativePosts := t_negativePosts t + (if sentiment s = Some (str ''NEGATIVE'') then 1 else 0),
              t_neutralPosts := t_neutralPosts t + (if sentiment s = Some (str ''NEUTRAL'') then 1 else 0),
              t_mixedPosts := t_mixedPosts t + (if sentiment s = Some (str ''MIXED'') then 1 else 0)\<rparr>
          else t)"

definition summarize ::
  "(real \<Rightarrow> real) \<Rightarrow> int \<Rightarrow> jsstring \<Rightarrow> sentimentAnalysis option list \<Rightarrow> SentimentSummary option" where
  "summarize rnd queryIdForContext term postsWithSentiment =
     (let t = foldl (tallyPost rnd) tally0 postsWithSentiment;
          analyzedCount = t_analyzedCount t
      in if analyzedCount = 0 then None
         else Some \<lparr>summary_queryId = queryIdForContext, summary_topic = term,
                    totalPostsAnalyzed = analyzedCount,
                    positivePosts = t_positivePosts t,
                    negativePosts = t_negativePosts t,
                    neutralPosts = t_neutralPosts t,
                    mixedPosts = t_mixedPosts t,
                    avgPositiveScore = (if analyzedCount > 0 then rnd (t_totalPositiveScore t / real analyzedCount) else 0),
                    avgNegativeScore = (if analyzedCount > 0 then rnd (t_totalNegativeScore t / real analyzedCount) else 0),
                    avgNeutralScore = (if analyzedCount > 0 then rnd (t_totalNeutralScore t / real analyzedCount) else 0),
                    avgMixedScore = (if analyzedCount > 0 then rnd (t_totalMixedScore t / real analyzedCount) else 0)\<rparr>)"

text \<open>
  The whole function: a rejected search is caught and gives no summary and no posts; an
  empty search result likewise; otherwise every post is scored in order and the summary,
  if any, is returned with the posts.
\<close>

definition analyzeSentimentForTerm ::
  "env \<Rightarrow> jsstring \<Rightarrow> int \<Rightarrow> int \<Rightarrow> (SentimentSummary option \<times> post list) \<times> call list" where
  "analyzeSentimentForTerm e term limit queryIdForContext =
     (case searchPosts e term limit of
        Inl searchError \<Rightarrow> ((None, []), [SearchPosts term limit])
      | Inr posts \<Rightarrow>
          if length posts = 0 then ((None, []), [SearchPosts term limit])
          else
            let scored = map (scorePost e) posts
            in ((summarize (roundToDouble e) queryIdForContext term (map fst scored), posts),
                SearchPosts term limit # concat (map snd scored)))"

section \<open>getSubtopics\<close>

text \<open>
  Values produced by \<^verbatim>\<open>JSON.parse\<close> are \<^typ>\<open>json\<close>; the parser itself and the numeric
  coercion that \<^verbatim>\<open>>=\<close> applies to a value that is not a number are platform functions,
  taken from the environment (\<^const>\<open>JSON_parse\<close> answers \<^const>\<open>None\<close> where the parser
  throws, and an object it returns has each key once).
\<close>

definition json_truthy :: "json \<Rightarrow> bool" where
  "json_truthy v =
     (case v of JNull \<Rightarrow> False | JBool b \<Rightarrow> b | JNum n \<Rightarrow> n \<noteq> 0 | JStr s \<Rightarrow> s \<noteq> []
      | JArr _ \<Rightarrow> True | JObj _ \<Rightarrow> True)"

text \<open>Reading \<^verbatim>\<open>body\<close>, \<^verbatim>\<open>statusCode\<close> or \<^verbatim>\<open>Subtopic\<close> of a parsed value.\<close>

definition property :: "json \<Rightarrow> jsstring \<Rightarrow> json option" where
  "property v k = (case v of JObj kvs \<Rightarrow> map_of kvs k | _ \<Rightarrow> None)"

definition is_JStr :: "json \<Rightarrow> bool" where
  "is_JStr v = (case v of JStr _ \<Rightarrow> True | _ \<Rightarrow> False)"

text \<open>\<^verbatim>\<open>Array.isArray(v) && v.every((item) => typeof item === 'string')\<close>.\<close>

definition is_string_array :: "json \<Rightarrow> bool" where
  "is_string_array v = (case v of JArr items \<Rightarrow> list_all is_JStr items | _ \<Rightarrow> False)"

text \<open>A string that survives \<^verbatim>\<open>typeof s === 'string' && s.trim() !== ''\<close>.\<close>

definition nonblank_string :: "json option \<Rightarrow> jsstring list" where
  "nonblank_string v = (case v of Some (JStr s) \<Rightarrow> (if trim s \<noteq> [] then [s] else []) | _ \<Rightarrow> [])"

definition statusCode_2xx :: "env \<Rightarrow> json option \<Rightarrow> bool" where
  "statusCode_2xx e v =
     (case v of
        None \<Rightarrow> False
      | Some (JNum n) \<Rightarrow> n = 200 \<or> (200 \<le> n \<and> n < 300)
      | Some j \<Rightarrow> (case ToNumber e j of None \<Rightarrow> False | Some n \<Rightarrow> 200 \<le> n \<and> n < 300))"

text \<open>The condition shared by the second and the third scenario of the source.\<close>

definition apiGatewayLike :: "env \<Rightarrow> json \<Rightarrow> bool" where
  "apiGatewayLike e responsePayload =
     (json_truthy responsePayload
      \<and> (case property responsePayload (str ''body'') of Some (JStr _) \<Rightarrow> True | _ \<Rightarrow> False)
      \<and> statusCode_2xx e (property responsePayload (str ''statusCode'')))"

definition bodyOf :: "json \<Rightarrow> jsstring" where
  "bodyOf responsePayload = (case property responsePayload (str ''body'') of Some (JStr b) \<Rightarrow> b | _ \<Rightarrow> [])"

datatype thrown = InvocationRejected jsstring | SyntaxError

text \<open>
  The body of the outer \<^verbatim>\<open>try\<close>: \<^const>\<open>Inl\<close> is a value thrown inside it and not caught
  by an inner \<^verbatim>\<open>try\<close> (a rejected invocation, or \<^verbatim>\<open>JSON.parse\<close> failing on the payload).
\<close>

definition getSubtopics_try :: "env \<Rightarrow> jsstring \<Rightarrow> int \<Rightarrow> thrown + jsstring list" where
  "getSubtopics_try e name queryId =
     (case Invoke_getSubtopic e name queryId of
        Inl msg \<Rightarrow> Inl (InvocationRejected msg)
      | Inr response \<Rightarrow>
          if truthy (FunctionError response) then Inr []
          else
            (case Payload response of
               None \<Rightarrow> Inr []
             | Some responsePayloadString \<Rightarrow>
                 (case JSON_parse e responsePayloadString of
                    None \<Rightarrow> Inl SyntaxError
                  | Some responsePayload \<Rightarrow>
                      if is_string_array responsePayload then
                        Inr (case responsePayload of
                               JArr items \<Rightarrow> concat (map (\<lambda>s. nonblank_string (Some s)) items)
                             | _ \<Rightarrow> [])
                      else if apiGatewayLike e responsePayload then
                        (case JSON_parse e (bodyOf responsePayload) of
                           None \<Rightarrow> Inr []
                         | Some bodyPayload \<Rightarrow>
                             (case bodyPayload of
                                JArr items \<Rightarrow>
                                  Inr (concat (map (\<lambda>item. nonblank_string (property item (str ''Subtopic''))) items))
                              | _ \<Rightarrow> Inr []))
                      else if apiGatewayLike e responsePayload then
                        (case JSON_parse e (bodyOf responsePayload) of
                           None \<Rightarrow> Inr []
                         | Some bodyPayload \<Rightarrow>
                             if is_string_array bodyPayload then
                               Inr (case bodyPayload of
                                      JArr items \<Rightarrow> concat (map (\<lambda>s. nonblank_string (Some s)) items)
                                    | _ \<Rightarrow> [])
                             else Inr [])
                      else Inr [])))"

text \<open>\<^verbatim>\<open>process.env.X || 'default'\<close>.\<close>

definition env_or :: "jsstring option \<Rightarrow> jsstring \<Rightarrow> jsstring" where
  "env_or v d = (case v of None \<Rightarrow> d | Some s \<Rightarrow> if s = [] then d else s)"

definition getSubtopics :: "env \<Rightarrow> int \<Rightarrow> jsstring list \<times> call list" where
  "getSubtopics e queryId =
     (let name = env_or (GET_SUBTOPICS_LAMBDA_NAME_env e) (str ''getSubtopic'')
      in if name = [] then ([], [])
         else (case getSubtopics_try e name queryId of
                 Inl err \<Rightarrow> ([], [InvokeGetSubtopic queryId])
               | Inr subtopics \<Rightarrow> (subtopics, [InvokeGetSubtopic queryId])))"

section \<open>Storing results, the schedule and the notification\<close>

text \<open>The item written by \<^verbatim>\<open>storeAnalysisResults\<close> (main topic).\<close>

definition mainItem :: "SentimentSummary \<Rightarrow> item" where
  "mainItem summary =
     \<lparr>item_QueryID = summary_queryId summary, item_Topic = summary_topic summary, MainTopic = None,
      PostsAnalyzed = totalPostsAnalyzed summary,
      PositivePosts = positivePosts summary, NegativePosts = negativePosts summary,
      NeutralPosts = neutralPosts summary, MixedPosts = mixedPosts summary,
      AvgPositiveScore = avgPositiveScore summary, AvgNegativeScore = avgNegativeScore summary,
      AvgNeutralScore = avgNeutralScore summary, AvgMixedScore = avgMixedScore summary,
      IsSubtopic = Some False\<rparr>"

text \<open>The item written by \<^verbatim>\<open>storeSubtopicAnalysisResults\<close>.\<close>

definition subtopicItem :: "SentimentSummary \<Rightarrow> jsstring \<Rightarrow> jsstring \<Rightarrow> item" where
  "subtopicItem summary subtopic mainTopic =
     \<lparr>item_QueryID = summary_queryId summary, item_Topic = subtopic, MainTopic = Some mainTopic,
      PostsAnalyzed = totalPostsAnalyzed summary,
      PositivePosts = positivePosts summary, NegativePosts = negativePosts summary,
      NeutralPosts = neutralPosts summary, MixedPosts = mixedPosts summary,
      AvgPositiveScore = avgPositiveScore summary, AvgNegativeScore = avgNegativeScore summary,
      AvgNeutralScore = avgNeutralScore summary, AvgMixedScore = avgMixedScore summary,
      IsSubtopic = Some True\<rparr>"

text \<open>
  Both store functions draw an identifier and put the item; either step may throw, which
  is the answer \<^const>\<open>Inl\<close> of \<^const>\<open>PutCommand_Data\<close>.  The result says whether the
  function returned normally.
\<close>

definition storeItem :: "env \<Rightarrow> item \<Rightarrow> bool \<times> call list" where
  "storeItem e it = (let ok = succeeded (PutCommand_Data e it) in (ok, [PutData it ok]))"

definition storeAnalysisResults :: "env \<Rightarrow> SentimentSummary \<Rightarrow> bool \<times> call list" where
  "storeAnalysisResults e summary = storeItem e (mainItem summary)"

definition storeSubtopicAnalysisResults ::
  "env \<Rightarrow> SentimentSummary \<Rightarrow> jsstring \<Rightarrow> jsstring \<Rightarrow> bool \<times> call list" where
  "storeSubtopicAnalysisResults e summary subtopic mainTopic =
     storeItem e (subtopicItem summary subtopic mainTopic)"

text \<open>\<^verbatim>\<open>deleteSchedule\<close> catches whatever the scheduler throws.\<close>

definition deleteSchedule :: "env \<Rightarrow> int \<Rightarrow> call list" where
  "deleteSchedule e queryId = [DeleteSchedule queryId (DeleteScheduleCommand e queryId)]"

text \<open>
  \<^verbatim>\<open>triggerEmailNotification\<close>: skipped when the record has no address; a rejected
  publish is not caught.  The result says whether the function returned normally.
\<close>

definition triggerEmailNotification :: "env \<Rightarrow> QueryDetails \<Rightarrow> bool \<times> call list" where
  "triggerEmailNotification e queryDetails =
     (if Email queryDetails = [] then (True, [])
      else (let ok = succeeded (PublishCommand e queryDetails) in (ok, [Publish queryDetails ok])))"

definition MAX_SUBTOPIC_LENGTH :: nat where
  "MAX_SUBTOPIC_LENGTH = 255"

definition triggerAddSubtopicLambda :: "env \<Rightarrow> int \<Rightarrow> jsstring \<Rightarrow> call list" where
  "triggerAddSubtopicLambda e queryId subtopic =
     (let name = env_or (ADD_SUBTOPIC_LAMBDA_NAME_env e) (str ''addSubtopic'')
      in if name = [] then []
         else
           let truncatedSubtopic =
                 (if length subtopic > MAX_SUBTOPIC_LENGTH then take MAX_SUBTOPIC_LENGTH subtopic
                  else subtopic)
           in if truncatedSubtopic = [] then []
              else [InvokeAddSubtopic queryId truncatedSubtopic
                      (succeeded (Invoke_addSubtopic e name queryId truncatedSubtopic))])"

section \<open>Subtopic discovery on the first run\<close>

definition SUBTOPIC_COUNT :: nat where
  "SUBTOPIC_COUNT = 3"

record keyPhraseAnalysis =
  phrases :: "jsstring list"
  phrases_error :: "jsstring option"

text \<open>
  The callback of \<^verbatim>\<open>mainTopicPosts.map\<close>.  The extractor answers an optional list of
  key phrases, each with an optional text; \<^verbatim>\<open>kp.Text ?? ''\<close> and the filter keep the
  non-empty texts.
\<close>

definition keyPhrasePost :: "env \<Rightarrow> post \<Rightarrow> keyPhraseAnalysis option \<times> call list" where
  "keyPhrasePost e p =
     (case record_text p of
        None \<Rightarrow> (None, [])
      | Some postText \<Rightarrow>
          if no_text (Some postText) then (None, [])
          else
            let t = textToAnalyze postText
            in (Some (case DetectKeyPhrasesCommand e t of
                        Inr keyPhrases \<Rightarrow>
                          \<lparr>phrases =
                             (case keyPhrases of
                                None \<Rightarrow> []
                              | Some kps \<Rightarrow>
                                  filter (\<lambda>txt. txt \<noteq> [])
                                    (map (\<lambda>kp. case kp of None \<Rightarrow> [] | Some txt \<Rightarrow> txt) kps)),
                           phrases_error = None\<rparr>
                      | Inl msg \<Rightarrow> \<lparr>phrases = [], phrases_error = Some msg\<rparr>),
                [DetectKeyPhrases t]))"

text \<open>
  \<^verbatim>\<open>phraseCounts\<close> is a plain object used as a dictionary; it is modelled by its own
  properties in insertion order.  In \<^verbatim>\<open>phraseCounts[k] = (phraseCounts[k] || 0) + 1\<close>
  the read of a key that is not an own property finds what the object inherits from
  \<^verbatim>\<open>Object.prototype\<close>.  Of the inherited names only \<^verbatim>\<open>constructor\<close> and \<^verbatim>\<open>__proto__\<close>
  are in lower case.  Both hold an object, which is truthy, so that \<^verbatim>\<open>+ 1\<close> appends
  \<^verbatim>\<open>1\<close> to its text.  The write to \<^verbatim>\<open>constructor\<close> creates an own property holding
  that text; the write to \<^verbatim>\<open>__proto__\<close> calls the inherited setter, which ignores a
  value that is not an object, so that nothing is stored.  A later read of an own
  property holding a text appends \<^verbatim>\<open>1\<close> again.
\<close>

definition Object_source :: jsstring where
  "Object_source = str ''function Object() { [native code] }''"

definition increment :: "phraseCount \<Rightarrow> phraseCount" where
  "increment v =
     (case v of
        Count n \<Rightarrow> Count (n + 1)
      | Text s \<Rightarrow> if s = [] then Count 1 else Text (s @ str ''1''))"

fun bump :: "(jsstring \<times> phraseCount) list \<Rightarrow> jsstring \<Rightarrow> (jsstring \<times> phraseCount) list" where
  "bump [] k =
     (if k = str ''__proto__'' then []
      else if k = str ''constructor'' then [(k, Text (Object_source @ str ''1''))]
      else [(k, Count 1)])"
| "bump ((k', v) # m) k = (if k' = k then (k', increment v) # m else (k', v) # bump m k)"

definition countPhrase ::
  "env \<Rightarrow> jsstring \<Rightarrow> (jsstring \<times> phraseCount) list \<Rightarrow> jsstring \<Rightarrow> (jsstring \<times> phraseCount) list" where
  "countPhrase e mainTopic phraseCounts phrase =
     (let normalizedPhrase = trim (toLowerCase e phrase)
      in if normalizedPhrase \<noteq> [] \<and> length normalizedPhrase > 2
            \<and> normalizedPhrase \<noteq> trim (toLowerCase e mainTopic)
         then bump phraseCounts normalizedPhrase
         else phraseCounts)"

definition countPost ::
  "env \<Rightarrow> jsstring \<Rightarrow> (jsstring \<times> phraseCount) list \<Rightarrow> keyPhraseAnalysis option
     \<Rightarrow> (jsstring \<times> phraseCount) list" where
  "countPost e mainTopic phraseCounts p =
     (case p of
        None \<Rightarrow> phraseCounts
      | Some a \<Rightarrow>
          if \<not> truthy (phrases_error a) then foldl (countPhrase e mainTopic) phraseCounts (phrases a)
          else phraseCounts)"

text \<open>
  \<^verbatim>\<open>Object.entries\<close> lists the keys that are array indices first, in ascending numeric
  order, and then the other keys in insertion order.
\<close>

definition is_digit :: "nat \<Rightarrow> bool" where
  "is_digit c = (48 \<le> c \<and> c \<le> 57)"

definition digits_value :: "jsstring \<Rightarrow> nat" where
  "digits_value ds = foldl (\<lambda>a c. 10 * a + (c - 48)) 0 ds"

definition is_array_index :: "jsstring \<Rightarrow> bool" where
  "is_array_index k =
     (list_all is_digit k
      \<and> (case k of [] \<Rightarrow> False | c # r \<Rightarrow> c \<noteq> 48 \<or> r = [])
      \<and> digits_value k < 2 ^ 32 - 1)"

definition Object_entries ::
  "(jsstring \<times> phraseCount) list \<Rightarrow> (jsstring \<times> phraseCount) list" where
  "Object_entries m =
     sort_key (\<lambda>kv. digits_value (fst kv)) (filter (\<lambda>kv. is_array_index (fst kv)) m)
     @ filter (\<lambda>kv. \<not> is_array_index (fst kv)) m"

text \<open>
  The comparator \<^verbatim>\<open>([, countA], [, countB]) => countB - countA\<close>.  The text held for
  \<^verbatim>\<open>constructor\<close> is not a numeric literal, so a difference with it is \<^verbatim>\<open>NaN\<close>,
  which \<^verbatim>\<open>sort\<close> takes as 0.
\<close>

definition compareCounts :: "jsstring \<times> phraseCount \<Rightarrow> jsstring \<times> phraseCount \<Rightarrow> int" where
  "compareCounts a b =
     (case snd a of
        Count countA \<Rightarrow> (case snd b of Count countB \<Rightarrow> int countB - int countA | Text _ \<Rightarrow> 0)
      | Text _ \<Rightarrow> 0)"

text \<open>
  \<^verbatim>\<open>Array.prototype.sort\<close> is stable, and it sorts when the comparator is consistent
  on the elements: here, when all counts are numbers, or when every two elements compare
  as equal.  With an inconsistent comparator the order is implementation-defined: the
  elements are permuted by ranks that the platform chooses.
\<close>

definition is_Count :: "phraseCount \<Rightarrow> bool" where
  "is_Count v = (case v of Count _ \<Rightarrow> True | Text _ \<Rightarrow> False)"

definition consistentComparator :: "(jsstring \<times> phraseCount) list \<Rightarrow> bool" where
  "consistentComparator es =
     (list_all (\<lambda>kv. is_Count (snd kv)) es
      \<or> list_all (\<lambda>a. list_all (\<lambda>b. compareCounts a b = 0) es) es)"

fun insertBy :: "('a \<Rightarrow> 'a \<Rightarrow> int) \<Rightarrow> 'a \<Rightarrow> 'a list \<Rightarrow> 'a list" where
  "insertBy cmp x [] = [x]"
| "insertBy cmp x (y # ys) = (if cmp x y \<le> 0 then x # y # ys else y # insertBy cmp x ys)"

definition stableSort :: "('a \<Rightarrow> 'a \<Rightarrow> int) \<Rightarrow> 'a list \<Rightarrow> 'a list" where
  "stableSort cmp xs = foldr (insertBy cmp) xs []"

definition Array_sort ::
  "env \<Rightarrow> (jsstring \<times> phraseCount) list \<Rightarrow> (jsstring \<times> phraseCount) list" where
  "Array_sort e es =
     (if consistentComparator es then stableSort compareCounts es
      else map (\<lambda>i. es ! i) (sort_key (Array_sort_rank e es) [0..<length es]))"

text \<open>The sorted entries; then the two slices around the filter.\<close>

definition sortedPhrases ::
  "env \<Rightarrow> (jsstring \<times> phraseCount) list \<Rightarrow> (jsstring \<times> phraseCount) list" where
  "sortedPhrases e phraseCounts = Array_sort e (Object_entries phraseCounts)"

definition potentialSubtopics :: "env \<Rightarrow> (jsstring \<times> phraseCount) list \<Rightarrow> jsstring list" where
  "potentialSubtopics e phraseCounts =
     map fst (take (SUBTOPIC_COUNT + 1) (sortedPhrases e phraseCounts))"

definition finalSubtopics :: "env \<Rightarrow> jsstring \<Rightarrow> (jsstring \<times> phraseCount) list \<Rightarrow> jsstring list" where
  "finalSubtopics e mainTopic phraseCounts =
     (let normalizedMainTopic = trim (toLowerCase e mainTopic)
      in take SUBTOPIC_COUNT
           (filter (\<lambda>phrase. trim (toLowerCase e phrase) \<noteq> normalizedMainTopic)
              (potentialSubtopics e phraseCounts)))"

text \<open>
  The first-run block, entered after the main-topic summary has been stored: the
  subscription (a rejected subscription ends the block in the enclosing \<^verbatim>\<open>catch\<close>),
  the key-phrase extraction for every post, the selection and the registration calls.
\<close>

definition firstRunActions :: "env \<Rightarrow> int \<Rightarrow> QueryDetails \<Rightarrow> post list \<Rightarrow> call list" where
  "firstRunActions e queryId queryDetails mainTopicPosts =
     (let emailAddress = Email queryDetails
      in case SubscribeCommand e emailAddress of
           Inl _ \<Rightarrow> [Subscribe emailAddress False]
         | Inr _ \<Rightarrow>
             Subscribe emailAddress True #
             (if length mainTopicPosts > 0 then
                let postsWithKeyPhrases = map (keyPhrasePost e) mainTopicPosts;
                    phraseCounts = foldl (countPost e (Topic queryDetails)) [] (map fst postsWithKeyPhrases)
                in concat (map snd postsWithKeyPhrases)
                   @ concat (map (triggerAddSubtopicLambda e queryId)
                               (finalSubtopics e (Topic queryDetails) phraseCounts))
              else []))"

section \<open>The handler\<close>

datatype error =
    InvalidScheduledEventPayload
  | MissingTableNames
  | FailedToFetchQueryDetails
  | FailedToFetchRunCount
  | MissingBlueskyCredentials
  | BlueskyAuthenticationFailed
  | PublishRejected

datatype response = Response400 | Response200 bool int int

text \<open>
  The event: a scheduled event with \<^verbatim>\<open>detail.queryId\<close> (present only when it is a
  number) and \<^verbatim>\<open>detail.topic\<close>, or any other event with its optional query string
  parameters \<^verbatim>\<open>queryId\<close> and \<^verbatim>\<open>topic\<close>.
\<close>

datatype lambdaEvent =
    ScheduledEvent "int option" "jsstring option"
  | OtherEvent "(jsstring option \<times> jsstring option) option"

definition isScheduledEvent :: "lambdaEvent \<Rightarrow> bool" where
  "isScheduledEvent event = (case event of ScheduledEvent _ _ \<Rightarrow> True | OtherEvent _ \<Rightarrow> False)"

text \<open>
  \<^verbatim>\<open>parseInt(s, 10)\<close>: leading white space, an optional sign, then decimal digits.  The
  result is the number that the digits denote; \<^verbatim>\<open>parseInt\<close> answers the double nearest to
  it, which is that number for an identifier of fewer than 16 digits.
\<close>

definition parseInt10 :: "jsstring \<Rightarrow> int option" where
  "parseInt10 s =
     (let s1 = dropWhile is_js_space s;
          neg = (case s1 of c # _ \<Rightarrow> c = 45 | [] \<Rightarrow> False);
          s2 = (case s1 of c # r \<Rightarrow> if c = 45 \<or> c = 43 then r else s1 | [] \<Rightarrow> []);
          ds = takeWhile is_digit s2
      in if ds = [] then None
         else Some (if neg then - int (digits_value ds) else int (digits_value ds)))"

datatype extraction = Throw error | Return response | Proceed int "jsstring option"

definition extractQueryInfo :: "lambdaEvent \<Rightarrow> extraction" where
  "extractQueryInfo event =
     (case event of
        ScheduledEvent detail_queryId detail_topic \<Rightarrow>
          (case detail_queryId of
             None \<Rightarrow> Throw InvalidScheduledEventPayload
           | Some queryId \<Rightarrow> Proceed queryId detail_topic)
      | OtherEvent queryStringParameters \<Rightarrow>
          (case queryStringParameters of
             None \<Rightarrow> Return Response400
           | Some (p_queryId, p_topic) \<Rightarrow>
               if truthy p_queryId then
                 (case parseInt10 (case p_queryId of Some s \<Rightarrow> s | None \<Rightarrow> []) of
                    None \<Rightarrow> Return Response400
                  | Some queryId \<Rightarrow> Proceed queryId p_topic)
               else Return Response400))"

text \<open>
  \<^verbatim>\<open>getQueryDetails\<close>: with a topic hint a \<^verbatim>\<open>GetCommand\<close> is tried first, and a miss or
  a rejection falls back to the \<^verbatim>\<open>QueryCommand\<close> on the identifier alone.
\<close>

definition queryFallback :: "env \<Rightarrow> int \<Rightarrow> (error + QueryDetails) \<times> call list" where
  "queryFallback e queryId =
     (case QueryCommand_Queries e queryId of
        Inl _ \<Rightarrow> (Inl FailedToFetchQueryDetails, [QueryQueries queryId])
      | Inr Items \<Rightarrow>
          (case Items of
             [] \<Rightarrow> (Inl FailedToFetchQueryDetails, [QueryQueries queryId])
           | first # _ \<Rightarrow> (Inr first, [QueryQueries queryId])))"

definition getQueryDetails ::
  "env \<Rightarrow> int \<Rightarrow> jsstring option \<Rightarrow> (error + QueryDetails) \<times> call list" where
  "getQueryDetails e queryId topicHint =
     (if \<not> truthy (QUERIES_TABLE_NAME e) then (Inl FailedToFetchQueryDetails, [])
      else if truthy topicHint then
        (let hint = (case topicHint of Some h \<Rightarrow> h | None \<Rightarrow> [])
         in case GetCommand_Queries e queryId hint of
              Inr (Some Item) \<Rightarrow> (Inr Item, [GetQueries queryId hint])
            | _ \<Rightarrow> (let (r, c) = queryFallback e queryId in (r, GetQueries queryId hint # c)))
      else queryFallback e queryId)"

text \<open>
  The run count.  The handler sends one \<^verbatim>\<open>ScanCommand\<close> with
  \<^verbatim>\<open>FilterExpression: 'QueryID = :qid AND attribute_exists(IsSubtopic) AND IsSubtopic = :isfalse'\<close>
  and \<^verbatim>\<open>Select: 'COUNT'\<close>, and reads \<^verbatim>\<open>countResult.Count ?? 0\<close>; it does not follow
  \<^verbatim>\<open>LastEvaluatedKey\<close>.
\<close>

definition scanCount :: "env \<Rightarrow> item list \<Rightarrow> int \<Rightarrow> nat" where
  "scanCount e tbl queryId =
     (case ScanCommand_Data e tbl queryId of
        Inl _ \<Rightarrow> 0
      | Inr countResult \<Rightarrow> (case countResult of None \<Rightarrow> 0 | Some n \<Rightarrow> n))"

text \<open>
  The number of items of a table that match the filter of the scan.  DynamoDB answers a
  scan request from one page: it reads the table from its start, up to the end of the
  table or to the size limit of a page (1 MB), and \<^verbatim>\<open>Count\<close> is the number of items read
  that match the filter.
\<close>

definition runCount :: "item list \<Rightarrow> int \<Rightarrow> nat" where
  "runCount tbl queryId =
     length (filter (\<lambda>it. item_QueryID it = queryId \<and> IsSubtopic it \<noteq> None
                           \<and> IsSubtopic it = Some False) tbl)"


text \<open>
  The two statements that finalize a query, written at the early exit and at the end:
  \<^verbatim>\<open>await triggerEmailNotification(queryDetails); await deleteSchedule(queryId);\<close>.
\<close>

definition finalizeQuery :: "env \<Rightarrow> int \<Rightarrow> QueryDetails \<Rightarrow> (error + unit) \<times> call list" where
  "finalizeQuery e queryId queryDetails =
     (let (ok, c) = triggerEmailNotification e queryDetails
      in if ok then (Inr (), c @ deleteSchedule e queryId) else (Inl PublishRejected, c))"

text \<open>
  Step 6a.  The result is \<^verbatim>\<open>mainTopicStoredSuccessfullyThisRun\<close>; everything thrown
  inside the \<^verbatim>\<open>try\<close> is caught.
\<close>

definition mainTopicPhase :: "env \<Rightarrow> int \<Rightarrow> QueryDetails \<Rightarrow> nat \<Rightarrow> bool \<times> call list" where
  "mainTopicPhase e queryId queryDetails currentRunCount =
     (let mainTopic = Topic queryDetails;
          postLimit = PostsToAnalyze queryDetails;
          (mainTopicAnalysisResult, c1) = analyzeSentimentForTerm e mainTopic postLimit queryId
      in case fst mainTopicAnalysisResult of
           None \<Rightarrow> (False, c1)
         | Some summary \<Rightarrow>
             (let (stored, c2) = storeAnalysisResults e summary
              in if \<not> stored then (False, c1 @ c2)
                 else if currentRunCount = 0
                 then (True, c1 @ c2 @ firstRunActions e queryId queryDetails (snd mainTopicAnalysisResult))
                 else (True, c1 @ c2)))"

text \<open>The body of the loop over the subtopics, with its own \<^verbatim>\<open>try\<close>/\<^verbatim>\<open>catch\<close>.\<close>

definition analyzeSubtopic :: "env \<Rightarrow> int \<Rightarrow> QueryDetails \<Rightarrow> jsstring \<Rightarrow> call list" where
  "analyzeSubtopic e queryId queryDetails subtopic =
     (let (subtopicAnalysisResult, c1) =
            analyzeSentimentForTerm e subtopic (PostsToAnalyze queryDetails) queryId
      in case fst subtopicAnalysisResult of
           None \<Rightarrow> c1
         | Some summary \<Rightarrow>
             c1 @ snd (storeSubtopicAnalysisResults e summary subtopic (Topic queryDetails)))"

text \<open>Step 6c.\<close>

definition subtopicPhase :: "env \<Rightarrow> int \<Rightarrow> QueryDetails \<Rightarrow> nat \<Rightarrow> call list" where
  "subtopicPhase e queryId queryDetails currentRunCount =
     (if currentRunCount > 0 then
        (let (subtopics, c) = getSubtopics e queryId
         in if length subtopics = 0 then c
            else c @ concat (map (analyzeSubtopic e queryId queryDetails) subtopics))
      else [])"

text \<open>
  Steps 4 to 7, for an invocation that has passed the entry guards.  The result is the
  pair of \<^verbatim>\<open>mainTopicStoredSuccessfullyThisRun\<close> and
  \<^verbatim>\<open>effectiveRunCountAfterThisExecution\<close>.
\<close>

definition runInterval ::
  "env \<Rightarrow> int \<Rightarrow> QueryDetails \<Rightarrow> nat \<Rightarrow> (error + bool \<times> int) \<times> call list" where
  "runInterval e queryId queryDetails currentRunCount =
     (if \<not> truthy (BLUESKY_HANDLE e) \<or> \<not> truthy (BLUESKY_APP_PASSWORD e)
      then (Inl MissingBlueskyCredentials, [])
      else case login e of
             Inl _ \<Rightarrow> (Inl BlueskyAuthenticationFailed, [Login])
           | Inr _ \<Rightarrow>
               (let (mainTopicStoredSuccessfullyThisRun, c1) =
                      mainTopicPhase e queryId queryDetails currentRunCount;
                    c2 = subtopicPhase e queryId queryDetails currentRunCount;
                    effectiveRunCountAfterThisExecution =
                      int currentRunCount + (if mainTopicStoredSuccessfullyThisRun then 1 else 0)
                in if effectiveRunCountAfterThisExecution \<ge> NumIntervals queryDetails then
                     (case finalizeQuery e queryId queryDetails of
                        (Inl err, c3) \<Rightarrow> (Inl err, Login # c1 @ c2 @ c3)
                      | (Inr _, c3) \<Rightarrow>
                          (Inr (mainTopicStoredSuccessfullyThisRun, effectiveRunCountAfterThisExecution),
                           Login # c1 @ c2 @ c3))
                   else (Inr (mainTopicStoredSuccessfullyThisRun, effectiveRunCountAfterThisExecution),
                         Login # c1 @ c2)))"

definition COUNTERS_TABLE_NAME :: "env \<Rightarrow> jsstring" where
  "COUNTERS_TABLE_NAME e = env_or (COUNTERS_TABLE_NAME_env e) (str ''CountersData'')"

definition handler :: "env \<Rightarrow> item list \<Rightarrow> lambdaEvent \<Rightarrow> (error + response option) \<times> call list" where
  "handler e tbl event =
     (case extractQueryInfo event of
        Throw err \<Rightarrow> (Inl err, [])
      | Return r \<Rightarrow> (Inr (Some r), [])
      | Proceed queryId topicFromEvent \<Rightarrow>
          if \<not> truthy (QUERIES_TABLE_NAME e) \<or> \<not> truthy (DATA_TABLE_NAME e)
             \<or> COUNTERS_TABLE_NAME e = []
          then (Inl MissingTableNames, [])
          else
            (case getQueryDetails e queryId topicFromEvent of
               (Inl err, c1) \<Rightarrow> (Inl err, c1)
             | (Inr queryDetails, c1) \<Rightarrow>
                 if Status queryDetails = Some (str ''COMPLETED'') \<or> Status queryDetails = Some (str ''CANCELLED'')
                 then (Inr None, c1 @ deleteSchedule e queryId)
                 else
                   (case ScanCommand_Data e tbl queryId of
                      Inl _ \<Rightarrow> (Inl FailedToFetchRunCount, c1 @ [ScanData queryId])
                    | Inr countResult \<Rightarrow>
                        (let currentRunCount = (case countResult of None \<Rightarrow> 0 | Some n \<Rightarrow> n)
                         in if int currentRunCount \<ge> NumIntervals queryDetails then
                              (case finalizeQuery e queryId queryDetails of
                                 (Inl err, c3) \<Rightarrow> (Inl err, c1 @ ScanData queryId # c3)
                               | (Inr _, c3) \<Rightarrow> (Inr None, c1 @ ScanData queryId # c3))
                            else
                              (case runInterval e queryId queryDetails currentRunCount of
                                 (Inl err, c3) \<Rightarrow> (Inl err, c1 @ ScanData queryId # c3)
                               | (Inr (stored, runCountAfter), c3) \<Rightarrow>
                                   (Inr (if isScheduledEvent event then None
                                         else Some (Response200 stored runCountAfter (NumIntervals queryDetails))),
                                    c1 @ ScanData queryId # c3))))))"

section \<open>Notions used to state the properties\<close>

text \<open>
  A post is successfully scored when it has text, the scoring call for that text is
  answered, and the answer carries a sentiment label; the value is that answer.
\<close>

definition successfullyScored :: "env \<Rightarrow> post \<Rightarrow> sentimentData option" where
  "successfullyScored e p =
     (case record_text p of
        None \<Rightarrow> None
      | Some t \<Rightarrow>
          if t = [] \<or> list_all is_js_space t then None
          else (case DetectSentimentCommand e (textToAnalyze t) of
                  Inl _ \<Rightarrow> None
                | Inr d \<Rightarrow> if truthy (Sentiment d) then Some d else None))"

definition scoredData :: "env \<Rightarrow> post list \<Rightarrow> sentimentData list" where
  "scoredData e posts = List.map_filter (successfullyScored e) posts"

text \<open>A confidence score of an answer, an absent one read as 0.\<close>

definition confidence :: "(SentimentScore \<Rightarrow> real option) \<Rightarrow> sentimentData \<Rightarrow> real" where
  "confidence f d =
     (case SentimentScore d of None \<Rightarrow> 0 | Some sc \<Rightarrow> (case f sc of None \<Rightarrow> 0 | Some x \<Rightarrow> x))"

definition labelled :: "jsstring \<Rightarrow> sentimentData list \<Rightarrow> nat" where
  "labelled l ds = length (filter (\<lambda>d. Sentiment d = Some l) ds)"

definition mean :: "(real \<Rightarrow> real) \<Rightarrow> real list \<Rightarrow> real" where
  "mean rnd xs = rnd (foldl (\<lambda>total x. rnd (total + x)) 0 xs / real (length xs))"

section \<open>Concrete scenarios\<close>

definition qd0 :: QueryDetails where
  "qd0 = \<lparr>QueryID = 7, Topic = (str ''jazz''), Email = (str ''a@b.c''), NumIntervals = 2, PostsToAnalyze = 5,
          IntervalLength = 1, IntervalUnit = (str ''hours''), CreatedAt = 0, Status = None\<rparr>"

definition sd :: "jsstring \<Rightarrow> real \<Rightarrow> sentimentData" where
  "sd l x = \<lparr>Sentiment = Some l,
            SentimentScore = Some \<lparr>Positive = Some x, Negative = Some (1 - x),
                                   Neutral = None, Mixed = Some 0\<rparr>\<rparr>"

definition posts_jazz :: "post list" where
  "posts_jazz = [\<lparr>uri = (str ''u1''), record_text = Some [97]\<rparr>, \<lparr>uri = (str ''u2''), record_text = Some [98]\<rparr>,
                 \<lparr>uri = (str ''u3''), record_text = None\<rparr>, \<lparr>uri = (str ''u4''), record_text = Some [99]\<rparr>]"

definition posts_quiet :: "post list" where
  "posts_quiet = [\<lparr>uri = (str ''u6''), record_text = Some [32, 10]\<rparr>, \<lparr>uri = (str ''u7''), record_text = Some [98]\<rparr>]"

text \<open>
  A healthy environment: topic 7 is \<^verbatim>\<open>jazz\<close>; the scorer rejects the text \<^verbatim>\<open>b\<close>; the
  search for \<^verbatim>\<open>bad\<close> is rejected; three subtopics are registered, \<^verbatim>\<open>bad\<close> among them.
\<close>

definition env0 :: env where
  "env0 =
     \<lparr>QUERIES_TABLE_NAME = Some (str ''Queries''), DATA_TABLE_NAME = Some (str ''Data''),
      COUNTERS_TABLE_NAME_env = None, BLUESKY_HANDLE = Some (str ''h''), BLUESKY_APP_PASSWORD = Some (str ''p''),
      GET_SUBTOPICS_LAMBDA_NAME_env = None, ADD_SUBTOPIC_LAMBDA_NAME_env = None,
      GetCommand_Queries = (\<lambda>q t. Inr None),
      QueryCommand_Queries = (\<lambda>q. if q = 7 then Inr [qd0] else Inr []),
      ScanCommand_Data = (\<lambda>tbl q. Inr (Some (runCount tbl q))),
      login = Inr (),
      searchPosts =
        (\<lambda>t l. if t = (str ''jazz'') then Inr posts_jazz
               else if t = (str ''quiet'') then Inr posts_quiet
               else if t = (str ''sax solo'') then Inr [\<lparr>uri = (str ''u5''), record_text = Some [97]\<rparr>]
               else if t = (str ''bad'') then Inl (str ''boom'')
               else Inr []),
      DetectSentimentCommand =
        (\<lambda>t. if t = [97] then Inr (sd (str ''POSITIVE'') (3 / 4))
             else if t = [98] then Inl (str ''throttled'')
             else Inr (sd (str ''NEUTRAL'') (1 / 4))),
      DetectKeyPhrasesCommand =
        (\<lambda>t. if t = [97] then Inr (Some [Some (str ''Sax Solo''), Some (str ''Jazz''), Some (str ''it'')])
             else Inr (Some [Some (str '' sax solo ''), None, Some (str ''the club'')])),
      PutCommand_Data = (\<lambda>it. Inr ()),
      SubscribeCommand = (\<lambda>a. Inr ()),
      PublishCommand = (\<lambda>q. Inr ()),
      DeleteScheduleCommand = (\<lambda>q. Deleted),
      Invoke_getSubtopic = (\<lambda>n q. Inr \<lparr>FunctionError = None, Payload = Some (str ''P'')\<rparr>),
      Invoke_addSubtopic = (\<lambda>n q s. Inr ()),
      JSON_parse =
        (\<lambda>s. if s = (str ''P'') then Some (JObj [((str ''statusCode''), JNum 200), ((str ''body''), JStr (str ''B''))])
             else if s = (str ''B'') then
               Some (JArr [JObj [((str ''Subtopic''), JStr (str ''bad''))], JObj [((str ''Subtopic''), JStr (str ''sax solo''))],
                           JNull, JObj [((str ''Subtopic''), JStr (str ''the club''))]])
             else None),
      ToNumber = (\<lambda>j. None),
      toLowerCase = lower_latin1,
      roundToDouble = (\<lambda>x. x),
      Array_sort_rank = (\<lambda>es i. i)\<rparr>"

text \<open>
  The retrieval of the subtopic list fails when the invocation is rejected, the invoked
  function reports an error, there is no payload, the payload does not parse, or the
  parsed payload has an unexpected shape: it is neither an array of strings nor a
  response object with a string body and a 2xx status whose body parses to an array.
\<close>

definition is_JArr :: "json \<Rightarrow> bool" where
  "is_JArr v = (case v of JArr _ \<Rightarrow> True | _ \<Rightarrow> False)"

definition unexpectedShape :: "env \<Rightarrow> json \<Rightarrow> bool" where
  "unexpectedShape e v =
     (\<not> is_string_array v
      \<and> (\<not> apiGatewayLike e v
         \<or> (case JSON_parse e (bodyOf v) of None \<Rightarrow> True | Some b \<Rightarrow> \<not> is_JArr b)))"

definition retrievalFails :: "env \<Rightarrow> int \<Rightarrow> bool" where
  "retrievalFails e queryId =
     (case Invoke_getSubtopic e (env_or (GET_SUBTOPICS_LAMBDA_NAME_env e) (str ''getSubtopic'')) queryId of
        Inl _ \<Rightarrow> True
      | Inr response \<Rightarrow>
          truthy (FunctionError response)
          \<or> (case Payload response of
                None \<Rightarrow> True
              | Some payload \<Rightarrow>
                  (case JSON_parse e payload of None \<Rightarrow> True | Some v \<Rightarrow> unexpectedShape e v)))"

text \<open>Environments in which the retrieval fails in each of these ways.\<close>

definition env_rejected :: env where
  "env_rejected = env0\<lparr>Invoke_getSubtopic := (\<lambda>n q. Inl (str ''timeout''))\<rparr>"

definition env_functionError :: env where
  "env_functionError =
     env0\<lparr>Invoke_getSubtopic := (\<lambda>n q. Inr \<lparr>FunctionError = Some (str ''Unhandled''), Payload = Some (str ''P'')\<rparr>)\<rparr>"

definition env_noPayload :: env where
  "env_noPayload = env0\<lparr>Invoke_getSubtopic := (\<lambda>n q. Inr \<lparr>FunctionError = None, Payload = None\<rparr>)\<rparr>"

definition env_unparseable :: env where
  "env_unparseable =
     env0\<lparr>Invoke_getSubtopic := (\<lambda>n q. Inr \<lparr>FunctionError = None, Payload = Some (str ''{'')\<rparr>)\<rparr>"

definition env_unexpected :: env where
  "env_unexpected =
     env0\<lparr>JSON_parse := (\<lambda>s. if s = (str ''P'') then Some (JObj [((str ''statusCode''), JNum 500), ((str ''body''), JStr (str ''B''))])
                            else None)\<rparr>"

text \<open>Recognisers for the calls of a trace, and the Data table after a trace.\<close>

fun isSearch :: "call \<Rightarrow> bool" where
  "isSearch (SearchPosts _ _) = True"
| "isSearch _ = False"

fun isScoring :: "call \<Rightarrow> bool" where
  "isScoring (DetectSentiment _) = True"
| "isScoring _ = False"

fun isKeyPhraseExtraction :: "call \<Rightarrow> bool" where
  "isKeyPhraseExtraction (DetectKeyPhrases _) = True"
| "isKeyPhraseExtraction _ = False"

fun isPut :: "call \<Rightarrow> bool" where
  "isPut (PutData _ _) = True"
| "isPut _ = False"

fun isRegistration :: "call \<Rightarrow> bool" where
  "isRegistration (InvokeAddSubtopic _ _ _) = True"
| "isRegistration _ = False"

fun isSubscribe :: "call \<Rightarrow> bool" where
  "isSubscribe (Subscribe _ _) = True"
| "isSubscribe _ = False"

fun isPublish :: "call \<Rightarrow> bool" where
  "isPublish (Publish _ _) = True"
| "isPublish _ = False"

fun isDelete :: "call \<Rightarrow> bool" where
  "isDelete (DeleteSchedule _ _) = True"
| "isDelete _ = False"

fun isLookup :: "call \<Rightarrow> bool" where
  "isLookup (GetQueries _ _) = True"
| "isLookup (QueryQueries _) = True"
| "isLookup _ = False"

text \<open>An item that a call of the trace has written to the Data table.\<close>

fun written :: "call \<Rightarrow> item list" where
  "written (PutData it ok) = (if ok then [it] else [])"
| "written _ = []"

definition tableAfter :: "item list \<Rightarrow> call list \<Rightarrow> item list" where
  "tableAfter tbl tr = tbl @ concat (map written tr)"

text \<open>A main-topic Result record was written by the trace.\<close>

definition mainRecordWritten :: "call list \<Rightarrow> bool" where
  "mainRecordWritten tr = list_ex (\<lambda>it. IsSubtopic it = Some False) (concat (map written tr))"

text \<open>
  An invocation reaches the run-count check when the event carries a query identifier,
  the table names are configured, the topic record is found, its status is neither
  \<^verbatim>\<open>COMPLETED\<close> nor \<^verbatim>\<open>CANCELLED\<close>, and the scan of the Data table is answered.  The
  value is the query identifier, the topic record and the lookup calls issued so far.
\<close>

definition entry ::
  "env \<Rightarrow> item list \<Rightarrow> lambdaEvent \<Rightarrow> (int \<times> QueryDetails \<times> call list) option" where
  "entry e tbl event =
     (case extractQueryInfo event of
        Proceed queryId topicFromEvent \<Rightarrow>
          if truthy (QUERIES_TABLE_NAME e) \<and> truthy (DATA_TABLE_NAME e) then
            (case getQueryDetails e queryId topicFromEvent of
               (Inr queryDetails, c1) \<Rightarrow>
                 if Status queryDetails \<noteq> Some (str ''COMPLETED'') \<and> Status queryDetails \<noteq> Some (str ''CANCELLED'')
                    \<and> succeeded (ScanCommand_Data e tbl queryId)
                 then Some (queryId, queryDetails, c1)
                 else None
             | (Inl _, _) \<Rightarrow> None)
          else None
      | _ \<Rightarrow> None)"

text \<open>The invocation gets past the credentials check and the login.\<close>

definition loggedIn :: "env \<Rightarrow> bool" where
  "loggedIn e = (truthy (BLUESKY_HANDLE e) \<and> truthy (BLUESKY_APP_PASSWORD e) \<and> succeeded (login e))"

text \<open>What a manual invocation is answered after a completed interval.\<close>

definition answer :: "lambdaEvent \<Rightarrow> bool \<Rightarrow> int \<Rightarrow> int \<Rightarrow> response option" where
  "answer event stored runCountAfter intervalsNeeded =
     (if isScheduledEvent event then None else Some (Response200 stored runCountAfter intervalsNeeded))"

text \<open>Scenarios for the finalization: the table after two stored runs of topic 7.\<close>

definition item_jazz :: item where
  "item_jazz =
     mainItem \<lparr>summary_queryId = 7, summary_topic = (str ''jazz''), totalPostsAnalyzed = 1,
               positivePosts = 1, negativePosts = 0, neutralPosts = 0, mixedPosts = 0,
               avgPositiveScore = 1, avgNegativeScore = 0, avgNeutralScore = 0, avgMixedScore = 0\<rparr>"

definition tbl_done :: "item list" where
  "tbl_done = [item_jazz, item_jazz]"

definition ev7 :: lambdaEvent where
  "ev7 = ScheduledEvent (Some 7) None"

definition env_publishRejected :: env where
  "env_publishRejected = env0\<lparr>PublishCommand := (\<lambda>q. Inl (str ''InvalidParameter''))\<rparr>"

definition env_noEmail :: env where
  "env_noEmail = env0\<lparr>QueryCommand_Queries := (\<lambda>q. Inr [qd0\<lparr>Email := []\<rparr>])\<rparr>"

text \<open>The calls that finalize a query.\<close>

definition isFinalization :: "call \<Rightarrow> bool" where
  "isFinalization c = (isPublish c \<or> isDelete c)"

text \<open>The table after one stored run of topic 7.\<close>

definition tbl_one :: "item list" where
  "tbl_one = [item_jazz]"


text \<open>The main-topic run count observed at the start of an invocation, if it gets there.\<close>

definition entryRunCount :: "env \<Rightarrow> item list \<Rightarrow> lambdaEvent \<Rightarrow> nat option" where
  "entryRunCount e tbl event =
     (case entry e tbl event of None \<Rightarrow> None | Some (q, qd, c1) \<Rightarrow> Some (scanCount e tbl q))"

text \<open>
  Topic 7 searched as \<^verbatim>\<open>quiet\<close> (posts are found, none can be scored) and as
  \<^verbatim>\<open>silence\<close> (no post is found).
\<close>

definition env_quiet :: env where
  "env_quiet = env0\<lparr>QueryCommand_Queries := (\<lambda>q. Inr [qd0\<lparr>Topic := (str ''quiet'')\<rparr>])\<rparr>"

definition env_silence :: env where
  "env_silence = env0\<lparr>QueryCommand_Queries := (\<lambda>q. Inr [qd0\<lparr>Topic := (str ''silence'')\<rparr>])\<rparr>"

text \<open>
  The Result record that the analysis of one subtopic leaves in the table: the one built
  from its own summary when there is a summary and its own put succeeds, none otherwise.
\<close>

definition subtopicRecord :: "env \<Rightarrow> int \<Rightarrow> QueryDetails \<Rightarrow> jsstring \<Rightarrow> item list" where
  "subtopicRecord e q qd s =
     (case fst (fst (analyzeSentimentForTerm e s (PostsToAnalyze qd) q)) of
        None \<Rightarrow> []
      | Some summary \<Rightarrow>
          if succeeded (PutCommand_Data e (subtopicItem summary s (Topic qd)))
          then [subtopicItem summary s (Topic qd)]
          else [])"

text \<open>The summary of the subtopic \<^verbatim>\<open>sax solo\<close> in the healthy environment.\<close>

definition summary_sax :: SentimentSummary where
  "summary_sax =
     \<lparr>summary_queryId = 7, summary_topic = (str ''sax solo''), totalPostsAnalyzed = 1,
      positivePosts = 1, negativePosts = 0, neutralPosts = 0, mixedPosts = 0,
      avgPositiveScore = 3 / 4, avgNegativeScore = 1 / 4,
      avgNeutralScore = 0, avgMixedScore = 0\<rparr>"

text \<open>
  A Unicode scalar value is a code point outside the surrogate range; a text of scalar
  values has a well-formed UTF-8 encoding.  The replacement character is U+FFFD.
\<close>

definition is_scalar :: "nat \<Rightarrow> bool" where
  "is_scalar c = (c < 0xD800 \<or> (0xE000 \<le> c \<and> c \<le> 0x10FFFF))"

definition scalar_of :: "nat \<Rightarrow> nat" where
  "scalar_of c = (if is_scalar c then c else 0xFFFD)"

text \<open>A text of 4989 letters \<^verbatim>\<open>a\<close> followed by U+00E9, 4991 bytes in UTF-8.\<close>

definition text_4991 :: ustring where
  "text_4991 = replicate 4989 97 @ [0xE9]"

text \<open>
  What fits into \<open>n\<close> bytes of a text: its code points (a non-scalar one read back as
  U+FFFD) as long as their encodings fit, followed by one U+FFFD when the cut falls
  inside the encoding of the next code point.
\<close>

fun cut :: "nat \<Rightarrow> ustring \<Rightarrow> ustring" where
  "cut n [] = []"
| "cut n (c # s) =
     (if length (utf8_encode_cp c) \<le> n then scalar_of c # cut (n - length (utf8_encode_cp c)) s
      else if n = 0 then []
      else [0xFFFD])"

text \<open>A scoring or key-phrase call whose text is within \<open>n\<close> bytes.\<close>

fun textWithin :: "nat \<Rightarrow> call \<Rightarrow> bool" where
  "textWithin n (DetectSentiment t) = (byteLength t \<le> n)"
| "textWithin n (DetectKeyPhrases t) = (byteLength t \<le> n)"
| "textWithin n _ = True"






text \<open>
  The Result record of a batch as the specification describes it: the number of
  successfully scored posts, the number of them in each category, and the mean of each
  confidence score over them, in the arithmetic of doubles (the running sum and the
  quotient are each rounded).
\<close>

definition resultRecord ::
  "(real \<Rightarrow> real) \<Rightarrow> int \<Rightarrow> jsstring \<Rightarrow> jsstring option \<Rightarrow> bool \<Rightarrow> sentimentData list \<Rightarrow> item" where
  "resultRecord rnd q topic mainTopic isSubtopic ds =
     \<lparr>item_QueryID = q, item_Topic = topic, MainTopic = mainTopic,
      PostsAnalyzed = length ds,
      PositivePosts = labelled (str ''POSITIVE'') ds,
      NegativePosts = labelled (str ''NEGATIVE'') ds,
      NeutralPosts = labelled (str ''NEUTRAL'') ds,
      MixedPosts = labelled (str ''MIXED'') ds,
      AvgPositiveScore = mean rnd (map (confidence Positive) ds),
      AvgNegativeScore = mean rnd (map (confidence Negative) ds),
      AvgNeutralScore = mean rnd (map (confidence Neutral) ds),
      AvgMixedScore = mean rnd (map (confidence Mixed) ds),
      IsSubtopic = Some isSubtopic\<rparr>"



text \<open>
  The key-phrase analyses of the posts of the main topic, and the phrase counts that the
  first-run block builds from them.
\<close>

definition mainTopicPosts :: "env \<Rightarrow> int \<Rightarrow> QueryDetails \<Rightarrow> post list" where
  "mainTopicPosts e q qd = snd (fst (analyzeSentimentForTerm e (Topic qd) (PostsToAnalyze qd) q))"


definition phraseCountsOf ::
  "env \<Rightarrow> jsstring \<Rightarrow> keyPhraseAnalysis option list \<Rightarrow> (jsstring \<times> phraseCount) list" where
  "phraseCountsOf e mainTopic kps = foldl (countPost e mainTopic) [] kps"

text \<open>The lower-case property names that every JavaScript object inherits.\<close>

definition inheritedNames :: "jsstring list" where
  "inheritedNames = [str ''constructor'', str ''__proto__'']"











section \<open>Strings written with characters\<close>

lemma str_eq [simp]: "str a = str b \<longleftrightarrow> a = b"
proof -
  have "inj (of_char :: char \<Rightarrow> nat)" by (rule injI) simp
  then have "inj (map (of_char :: char \<Rightarrow> nat))" by (simp only: inj_map)
  then show ?thesis unfolding str_def by (simp only: inj_eq)
qed

lemma str_Nil [simp]: "str s = [] \<longleftrightarrow> s = []" "[] = str s \<longleftrightarrow> s = []"
  by (auto simp: str_def)

lemma length_str [simp]: "length (str s) = length s"
  by (simp add: str_def)

section \<open>Properties of the summary\<close>

lemma map_filter_Cons:
  "List.map_filter f (x # xs) =
     (case f x of None \<Rightarrow> List.map_filter f xs | Some y \<Rightarrow> y # List.map_filter f xs)"
  by (simp add: List.map_filter_def split: option.splits)

lemma scoredData_Nil: "scoredData e [] = []"
  by (simp add: scoredData_def List.map_filter_def)

lemma scoredData_Cons:
  "scoredData e (p # posts) =
     (case successfullyScored e p of None \<Rightarrow> scoredData e posts | Some d \<Rightarrow> d # scoredData e posts)"
  unfolding scoredData_def by (simp add: map_filter_Cons)

lemma counted_scorePost:
  "counted (fst (scorePost e p)) = (successfullyScored e p \<noteq> None)"
  by (simp add: scorePost_def successfullyScored_def counted_def no_text_def truthy_def Let_def
        split: option.splits sum.splits)

lemma scorePost_data:
  "successfullyScored e p = Some d \<Longrightarrow>
     \<exists>s. fst (scorePost e p) = Some s \<and> sentiment s = Sentiment d \<and> scores s = SentimentScore d"
  by (auto simp: scorePost_def successfullyScored_def no_text_def Let_def
        split: option.splits sum.splits if_splits)

lemma tallyPost_uncounted: "\<not> counted a \<Longrightarrow> tallyPost rnd t a = t"
  by (cases a) (simp_all add: tallyPost_def)

lemma step_count:
  "t_analyzedCount (tallyPost rnd t (fst (scorePost e p))) =
     t_analyzedCount t + (case successfullyScored e p of None \<Rightarrow> 0 | Some d \<Rightarrow> 1)"
proof (cases "successfullyScored e p")
  case None
  then have "\<not> counted (fst (scorePost e p))" by (simp add: counted_scorePost)
  then show ?thesis using None by (simp add: tallyPost_uncounted)
next
  case (Some d)
  then have c: "counted (fst (scorePost e p))" by (simp add: counted_scorePost)
  from scorePost_data[OF Some] obtain s where
    s: "fst (scorePost e p) = Some s" "sentiment s = Sentiment d" "scores s = SentimentScore d"
    by blast
  from c s show ?thesis using Some
    by (simp add: tallyPost_def scoreOf_def confidence_def)
qed

lemma foldl_count:
  "t_analyzedCount (foldl (tallyPost rnd) t (map (\<lambda>p. fst (scorePost e p)) posts)) = t_analyzedCount t + length (scoredData e posts)"
proof (induction posts arbitrary: t)
  case Nil
  show ?case by (simp add: scoredData_Nil labelled_def)
next
  case (Cons p posts)
  show ?case
    by (cases "successfullyScored e p")
       (simp_all add: Cons.IH step_count scoredData_Cons labelled_def)
qed

lemma step_tpos:
  "t_totalPositiveScore (tallyPost rnd t (fst (scorePost e p))) =
     (case successfullyScored e p of None \<Rightarrow> t_totalPositiveScore t
      | Some d \<Rightarrow> rnd (t_totalPositiveScore t + confidence Positive d))"
proof (cases "successfullyScored e p")
  case None
  then have "\<not> counted (fst (scorePost e p))" by (simp add: counted_scorePost)
  then show ?thesis using None by (simp add: tallyPost_uncounted)
next
  case (Some d)
  then have c: "counted (fst (scorePost e p))" by (simp add: counted_scorePost)
  from scorePost_data[OF Some] obtain s where
    s: "fst (scorePost e p) = Some s" "sentiment s = Sentiment d" "scores s = SentimentScore d"
    by blast
  from c s show ?thesis using Some
    by (simp add: tallyPost_def scoreOf_def confidence_def)
qed

lemma foldl_tpos:
  "t_totalPositiveScore (foldl (tallyPost rnd) t (map (\<lambda>p. fst (scorePost e p)) posts)) =
     foldl (\<lambda>total x. rnd (total + x)) (t_totalPositiveScore t) (map (confidence Positive) (scoredData e posts))"
proof (induction posts arbitrary: t)
  case Nil
  show ?case by (simp add: scoredData_Nil labelled_def)
next
  case (Cons p posts)
  show ?case
    by (cases "successfullyScored e p")
       (simp_all add: Cons.IH step_tpos scoredData_Cons labelled_def)
qed

lemma step_tneg:
  "t_totalNegativeScore (tallyPost rnd t (fst (scorePost e p))) =
     (case successfullyScored e p of None \<Rightarrow> t_totalNegativeScore t
      | Some d \<Rightarrow> rnd (t_totalNegativeScore t + confidence Negative d))"
proof (cases "successfullyScored e p")
  case None
  then have "\<not> counted (fst (scorePost e p))" by (simp add: counted_scorePost)
  then show ?thesis using None by (simp add: tallyPost_uncounted)
next
  case (Some d)
  then have c: "counted (fst (scorePost e p))" by (simp add: counted_scorePost)
  from scorePost_data[OF Some] obtain s where
    s: "fst (scorePost e p) = Some s" "sentiment s = Sentiment d" "scores s = SentimentScore d"
    by blast
  from c s show ?thesis using Some
    by (simp add: tallyPost_def scoreOf_def confidence_def)
qed

lemma foldl_tneg:
  "t_totalNegativeScore (foldl (tallyPost rnd) t (map (\<lambda>p. fst (scorePost e p)) posts)) =
     foldl (\<lambda>total x. rnd (total + x)) (t_totalNegativeScore t) (map (confidence Negative) (scoredData e posts))"
proof (induction posts arbitrary: t)
  case Nil
  show ?case by (simp add: scoredData_Nil labelled_def)
next
  case (Cons p posts)
  show ?case
    by (cases "successfullyScored e p")
       (simp_all add: Cons.IH step_tneg scoredData_Cons labelled_def)
qed

lemma step_tneu:
  "t_totalNeutralScore (tallyPost rnd t (fst (scorePost e p))) =
     (case successfullyScored e p of None \<Rightarrow> t_totalNeutralScore t
      | Some d \<Rightarrow> rnd (t_totalNeutralScore t + confidence Neutral d))"
proof (cases "successfullyScored e p")
  case None
  then have "\<not> counted (fst (scorePost e p))" by (simp add: counted_scorePost)
  then show ?thesis using None by (simp add: tallyPost_uncounted)
next
  case (Some d)
  then have c: "counted (fst (scorePost e p))" by (simp add: counted_scorePost)
  from scorePost_data[OF Some] obtain s where
    s: "fst (scorePost e p) = Some s" "sentiment s = Sentiment d" "scores s = SentimentScore d"
    by blast
  from c s show ?thesis using Some
    by (simp add: tallyPost_def scoreOf_def confidence_def)
qed

lemma foldl_tneu:
  "t_totalNeutralScore (foldl (tallyPost rnd) t (map (\<lambda>p. fst (scorePost e p)) posts)) =
     foldl (\<lambda>total x. rnd (total + x)) (t_totalNeutralScore t) (map (confidence Neutral) (scoredData e posts))"
proof (induction posts arbitrary: t)
  case Nil
  show ?case by (simp add: scoredData_Nil labelled_def)
next
  case (Cons p posts)
  show ?case
    by (cases "successfullyScored e p")
       (simp_all add: Cons.IH step_tneu scoredData_Cons labelled_def)
qed

lemma step_tmix:
  "t_totalMixedScore (tallyPost rnd t (fst (scorePost e p))) =
     (case successfullyScored e p of None \<Rightarrow> t_totalMixedScore t
      | Some d \<Rightarrow> rnd (t_totalMixedScore t + confidence Mixed d))"
proof (cases "successfullyScored e p")
  case None
  then have "\<not> counted (fst (scorePost e p))" by (simp add: counted_scorePost)
  then show ?thesis using None by (simp add: tallyPost_uncounted)
next
  case (Some d)
  then have c: "counted (fst (scorePost e p))" by (simp add: counted_scorePost)
  from scorePost_data[OF Some] obtain s where
    s: "fst (scorePost e p) = Some s" "sentiment s = Sentiment d" "scores s = SentimentScore d"
    by blast
  from c s show ?thesis using Some
    by (simp add: tallyPost_def scoreOf_def confidence_def)
qed

lemma foldl_tmix:
  "t_totalMixedScore (foldl (tallyPost rnd) t (map (\<lambda>p. fst (scorePost e p)) posts)) =
     foldl (\<lambda>total x. rnd (total + x)) (t_totalMixedScore t) (map (confidence Mixed) (scoredData e posts))"
proof (induction posts arbitrary: t)
  case Nil
  show ?case by (simp add: scoredData_Nil labelled_def)
next
  case (Cons p posts)
  show ?case
    by (cases "successfullyScored e p")
       (simp_all add: Cons.IH step_tmix scoredData_Cons labelled_def)
qed

lemma step_npos:
  "t_positivePosts (tallyPost rnd t (fst (scorePost e p))) =
     t_positivePosts t + (case successfullyScored e p of None \<Rightarrow> 0 | Some d \<Rightarrow> (if Sentiment d = Some (str ''POSITIVE'') then 1 else 0))"
proof (cases "successfullyScored e p")
  case None
  then have "\<not> counted (fst (scorePost e p))" by (simp add: counted_scorePost)
  then show ?thesis using None by (simp add: tallyPost_uncounted)
next
  case (Some d)
  then have c: "counted (fst (scorePost e p))" by (simp add: counted_scorePost)
  from scorePost_data[OF Some] obtain s where
    s: "fst (scorePost e p) = Some s" "sentiment s = Sentiment d" "scores s = SentimentScore d"
    by blast
  from c s show ?thesis using Some
    by (simp add: tallyPost_def scoreOf_def confidence_def)
qed

lemma foldl_npos:
  "t_positivePosts (foldl (tallyPost rnd) t (map (\<lambda>p. fst (scorePost e p)) posts)) = t_positivePosts t + labelled (str ''POSITIVE'') (scoredData e posts)"
proof (induction posts arbitrary: t)
  case Nil
  show ?case by (simp add: scoredData_Nil labelled_def)
next
  case (Cons p posts)
  show ?case
    by (cases "successfullyScored e p")
       (simp_all add: Cons.IH step_npos scoredData_Cons labelled_def)
qed

lemma step_nneg:
  "t_negativePosts (tallyPost rnd t (fst (scorePost e p))) =
     t_negativePosts t + (case successfullyScored e p of None \<Rightarrow> 0 | Some d \<Rightarrow> (if Sentiment d = Some (str ''NEGATIVE'') then 1 else 0))"
proof (cases "successfullyScored e p")
  case None
  then have "\<not> counted (fst (scorePost e p))" by (simp add: counted_scorePost)
  then show ?thesis using None by (simp add: tallyPost_uncounted)
next
  case (Some d)
  then have c: "counted (fst (scorePost e p))" by (simp add: counted_scorePost)
  from scorePost_data[OF Some] obtain s where
    s: "fst (scorePost e p) = Some s" "sentiment s = Sentiment d" "scores s = SentimentScore d"
    by blast
  from c s show ?thesis using Some
    by (simp add: tallyPost_def scoreOf_def confidence_def)
qed

lemma foldl_nneg:
  "t_negativePosts (foldl (tallyPost rnd) t (map (\<lambda>p. fst (scorePost e p)) posts)) = t_negativePosts t + labelled (str ''NEGATIVE'') (scoredData e posts)"
proof (induction posts arbitrary: t)
  case Nil
  show ?case by (simp add: scoredData_Nil labelled_def)
next
  case (Cons p posts)
  show ?case
    by (cases "successfullyScored e p")
       (simp_all add: Cons.IH step_nneg scoredData_Cons labelled_def)
qed

lemma step_nneu:
  "t_neutralPosts (tallyPost rnd t (fst (scorePost e p))) =
     t_neutralPosts t + (case successfullyScored e p of None \<Rightarrow> 0 | Some d \<Rightarrow> (if Sentiment d = Some (str ''NEUTRAL'') then 1 else 0))"
proof (cases "successfullyScored e p")
  case None
  then have "\<not> counted (fst (scorePost e p))" by (simp add: counted_scorePost)
  then show ?thesis using None by (simp add: tallyPost_uncounted)
next
  case (Some d)
  then have c: "counted (fst (scorePost e p))" by (simp add: counted_scorePost)
  from scorePost_data[OF Some] obtain s where
    s: "fst (scorePost e p) = Some s" "sentiment s = Sentiment d" "scores s = SentimentScore d"
    by blast
  from c s show ?thesis using Some
    by (simp add: tallyPost_def scoreOf_def confidence_def)
qed

lemma foldl_nneu:
  "t_neutralPosts (foldl (tallyPost rnd) t (map (\<lambda>p. fst (scorePost e p)) posts)) = t_neutralPosts t + labelled (str ''NEUTRAL'') (scoredData e posts)"
proof (induction posts arbitrary: t)
  case Nil
  show ?case by (simp add: scoredData_Nil labelled_def)
next
  case (Cons p posts)
  show ?case
    by (cases "successfullyScored e p")
       (simp_all add: Cons.IH step_nneu scoredData_Cons labelled_def)
qed

lemma step_nmix:
  "t_mixedPosts (tallyPost rnd t (fst (scorePost e p))) =
     t_mixedPosts t + (case successfullyScored e p of None \<Rightarrow> 0 | Some d \<Rightarrow> (if Sentiment d = Some (str ''MIXED'') then 1 else 0))"
proof (cases "successfullyScored e p")
  case None
  then have "\<not> counted (fst (scorePost e p))" by (simp add: counted_scorePost)
  then show ?thesis using None by (simp add: tallyPost_uncounted)
next
  case (Some d)
  then have c: "counted (fst (scorePost e p))" by (simp add: counted_scorePost)
  from scorePost_data[OF Some] obtain s where
    s: "fst (scorePost e p) = Some s" "sentiment s = Sentiment d" "scores s = SentimentScore d"
    by blast
  from c s show ?thesis using Some
    by (simp add: tallyPost_def scoreOf_def confidence_def)
qed

lemma foldl_nmix:
  "t_mixedPosts (foldl (tallyPost rnd) t (map (\<lambda>p. fst (scorePost e p)) posts)) = t_mixedPosts t + labelled (str ''MIXED'') (scoredData e posts)"
proof (induction posts arbitrary: t)
  case Nil
  show ?case by (simp add: scoredData_Nil labelled_def)
next
  case (Cons p posts)
  show ?case
    by (cases "successfullyScored e p")
       (simp_all add: Cons.IH step_nmix scoredData_Cons labelled_def)
qed

lemma summarize_scored:
  "summarize rnd q term (map (\<lambda>p. fst (scorePost e p)) posts) =
     (let ds = scoredData e posts
      in if ds = [] then None
         else Some \<lparr>summary_queryId = q, summary_topic = term,
                    totalPostsAnalyzed = length ds,
                    positivePosts = labelled (str ''POSITIVE'') ds,
                    negativePosts = labelled (str ''NEGATIVE'') ds,
                    neutralPosts = labelled (str ''NEUTRAL'') ds,
                    mixedPosts = labelled (str ''MIXED'') ds,
                    avgPositiveScore = mean rnd (map (confidence Positive) ds),
                    avgNegativeScore = mean rnd (map (confidence Negative) ds),
                    avgNeutralScore = mean rnd (map (confidence Neutral) ds),
                    avgMixedScore = mean rnd (map (confidence Mixed) ds)\<rparr>)"
  unfolding summarize_def Let_def
  by (simp add: foldl_count foldl_tpos foldl_tneg foldl_tneu foldl_tmix
        foldl_npos foldl_nneg foldl_nneu foldl_nmix tally0_def mean_def)




lemma scorePost_calls: "c \<in> set (snd (scorePost e p)) \<Longrightarrow> \<exists>t. c = DetectSentiment t"
  by (auto simp: scorePost_def Let_def split: option.splits if_splits)

lemma analyze_calls:
  "c \<in> set (snd (analyzeSentimentForTerm e term limit q)) \<Longrightarrow>
     c = SearchPosts term limit \<or> (\<exists>t. c = DetectSentiment t)"
  by (auto simp: analyzeSentimentForTerm_def Let_def split: sum.splits if_splits
        dest: scorePost_calls)

lemma analyze_summary:
  "searchPosts e term limit = Inr posts \<Longrightarrow>
     fst (fst (analyzeSentimentForTerm e term limit q)) =
       summarize (roundToDouble e) q term (map (\<lambda>p. fst (scorePost e p)) posts)"
  by (cases posts) (simp_all add: analyzeSentimentForTerm_def Let_def summarize_def tally0_def comp_def)

lemma mainTopicPhase_no_summary:
  "fst (fst (analyzeSentimentForTerm e (Topic qd) (PostsToAnalyze qd) q)) = None \<Longrightarrow>
     mainTopicPhase e q qd n = (False, snd (analyzeSentimentForTerm e (Topic qd) (PostsToAnalyze qd) q))"
  by (auto simp add: mainTopicPhase_def Let_def split: prod.splits)

lemma analyzeSubtopic_no_summary:
  "fst (fst (analyzeSentimentForTerm e sub (PostsToAnalyze qd) q)) = None \<Longrightarrow>
     analyzeSubtopic e q qd sub = snd (analyzeSentimentForTerm e sub (PostsToAnalyze qd) q)"
  by (auto simp add: analyzeSubtopic_def Let_def split: prod.splits)

lemma textToAnalyze_short: "length s \<le> 4990 \<Longrightarrow> \<forall>c \<in> set s. c < 128 \<Longrightarrow> textToAnalyze s = s"
proof -
  assume l: "length s \<le> 4990" and a: "\<forall>c \<in> set s. c < 128"
  from a have "Buffer_from s = s"
    by (induction s) (simp_all add: Buffer_from_def utf8_encode_cp_def)
  then show ?thesis using l by (simp add: textToAnalyze_def byteLength_def MAX_COMPREHEND_BYTES_def)
qed

lemma scored_jazz: "scoredData env0 posts_jazz = [sd (str ''POSITIVE'') (3/4), sd (str ''NEUTRAL'') (1/4)]"
  by (simp add: scoredData_def List.map_filter_def posts_jazz_def successfullyScored_def env0_def
        textToAnalyze_short is_js_space_def sd_def truthy_def)

lemma scored_quiet: "scoredData env0 posts_quiet = []"
  by (simp add: scoredData_def List.map_filter_def posts_quiet_def successfullyScored_def env0_def
        textToAnalyze_short is_js_space_def sd_def truthy_def)

lemma round_env0: "roundToDouble env0 x = x"
  by (simp add: env0_def)

lemma env_or_nonempty: "d \<noteq> [] \<Longrightarrow> env_or v d \<noteq> []"
  by (simp add: env_or_def split: option.splits)

lemma getSubtopics_fails:
  assumes "retrievalFails e q"
  shows "getSubtopics e q = ([], [InvokeGetSubtopic q])"
proof -
  let ?name = "env_or (GET_SUBTOPICS_LAMBDA_NAME_env e) (str ''getSubtopic'')"
  have n: "?name \<noteq> []" by (rule env_or_nonempty) simp
  have "getSubtopics_try e ?name q = Inr [] \<or> (\<exists>err. getSubtopics_try e ?name q = Inl err)"
    using assms
    by (auto simp: retrievalFails_def getSubtopics_try_def unexpectedShape_def is_JArr_def
          split: sum.splits option.splits json.splits)
  then show ?thesis using n
    by (auto simp: getSubtopics_def Let_def)
qed

text \<open>
  Claim C10.  The subtopic-list retrieval never propagates an error: whenever the
  retrieval call is rejected, reports a function error, carries no payload, or carries
  a payload that does not parse or has an unexpected shape, \<^const>\<open>getSubtopics\<close>
  returns the empty list (whatever is thrown inside its \<^verbatim>\<open>try\<close> is turned into the empty
  list), and the subtopic step of a later interval then issues the retrieval call and
  nothing else, so that only the main topic is analysed.
\<close>

theorem C10_getSubtopics_degrades:
  "(retrievalFails e q \<longrightarrow> getSubtopics e q = ([], [InvokeGetSubtopic q]))
   \<and> (getSubtopics_try e (env_or (GET_SUBTOPICS_LAMBDA_NAME_env e) (str ''getSubtopic'')) q = Inl err
        \<longrightarrow> fst (getSubtopics e q) = [])
   \<and> (retrievalFails e q \<and> 0 < n \<longrightarrow> subtopicPhase e q qd n = [InvokeGetSubtopic q])"
proof (intro conjI impI)
  assume "retrievalFails e q"
  then show "getSubtopics e q = ([], [InvokeGetSubtopic q])" by (rule getSubtopics_fails)
next
  assume "getSubtopics_try e (env_or (GET_SUBTOPICS_LAMBDA_NAME_env e) (str ''getSubtopic'')) q = Inl err"
  then show "fst (getSubtopics e q) = []"
    by (simp add: getSubtopics_def Let_def)
next
  assume "retrievalFails e q \<and> 0 < n"
  then show "subtopicPhase e q qd n = [InvokeGetSubtopic q]"
    by (simp add: subtopicPhase_def getSubtopics_fails)
qed

lemma fails_rejected: "retrievalFails env_rejected 7"
  by (simp add: retrievalFails_def env_rejected_def env0_def)
lemma fails_functionError: "retrievalFails env_functionError 7"
  by (simp add: retrievalFails_def env_functionError_def env0_def truthy_def)
lemma fails_noPayload: "retrievalFails env_noPayload 7"
  by (simp add: retrievalFails_def env_noPayload_def env0_def truthy_def)
lemma fails_unparseable: "retrievalFails env_unparseable 7"
  by (simp add: retrievalFails_def env_unparseable_def env0_def truthy_def)
lemma fails_unexpected: "retrievalFails env_unexpected 7"
  by (simp add: retrievalFails_def env_unexpected_def env0_def truthy_def unexpectedShape_def
        is_string_array_def apiGatewayLike_def property_def statusCode_2xx_def json_truthy_def)

lemma try_unparseable:
  "getSubtopics_try env_unparseable (env_or (GET_SUBTOPICS_LAMBDA_NAME_env env_unparseable) (str ''getSubtopic'')) 7
     = Inl SyntaxError"
  by (simp add: getSubtopics_try_def env_unparseable_def env0_def truthy_def env_or_def)

theorem C10_getSubtopics_degrades_witness:
  "retrievalFails env_rejected 7 \<and> getSubtopics env_rejected 7 = ([], [InvokeGetSubtopic 7])
   \<and> retrievalFails env_functionError 7 \<and> getSubtopics env_functionError 7 = ([], [InvokeGetSubtopic 7])
   \<and> retrievalFails env_noPayload 7 \<and> getSubtopics env_noPayload 7 = ([], [InvokeGetSubtopic 7])
   \<and> retrievalFails env_unexpected 7 \<and> getSubtopics env_unexpected 7 = ([], [InvokeGetSubtopic 7])
   \<and> getSubtopics_try env_unparseable
        (env_or (GET_SUBTOPICS_LAMBDA_NAME_env env_unparseable) (str ''getSubtopic'')) 7 = Inl SyntaxError
   \<and> fst (getSubtopics env_unparseable 7) = []
   \<and> retrievalFails env_unparseable 7 \<and> (0::nat) < 1
   \<and> subtopicPhase env_unparseable 7 qd0 1 = [InvokeGetSubtopic 7]"
  using C10_getSubtopics_degrades[of env_rejected 7 SyntaxError 1 qd0]
    C10_getSubtopics_degrades[of env_functionError 7 SyntaxError 1 qd0]
    C10_getSubtopics_degrades[of env_noPayload 7 SyntaxError 1 qd0]
    C10_getSubtopics_degrades[of env_unexpected 7 SyntaxError 1 qd0]
    C10_getSubtopics_degrades[of env_unparseable 7 SyntaxError 1 qd0]
    fails_rejected fails_functionError fails_noPayload fails_unparseable fails_unexpected
    try_unparseable
  by simp

lemma getSubtopics_env0: "getSubtopics env0 7 = ([(str ''bad''), (str ''sax solo''), (str ''the club'')], [InvokeGetSubtopic 7])"
  by (simp add: getSubtopics_def getSubtopics_try_def env0_def env_or_def truthy_def is_string_array_def
     apiGatewayLike_def property_def statusCode_2xx_def json_truthy_def bodyOf_def nonblank_string_def
     trim_def is_js_space_def is_JStr_def str_def)


section \<open>The calls of each step\<close>

lemma keyPhrasePost_calls: "c \<in> set (snd (keyPhrasePost e p)) \<Longrightarrow> \<exists>t. c = DetectKeyPhrases t"
  by (auto simp: keyPhrasePost_def Let_def split: option.splits if_splits)

lemma triggerAddSubtopicLambda_calls:
  "c \<in> set (triggerAddSubtopicLambda e q s) \<Longrightarrow> \<exists>l b. c = InvokeAddSubtopic q l b"
  by (auto simp: triggerAddSubtopicLambda_def Let_def split: if_splits)

lemma firstRunActions_calls:
  "c \<in> set (firstRunActions e q qd posts) \<Longrightarrow>
     (\<exists>b. c = Subscribe (Email qd) b) \<or> (\<exists>t. c = DetectKeyPhrases t) \<or> (\<exists>l b. c = InvokeAddSubtopic q l b)"
  by (auto simp: firstRunActions_def Let_def split: sum.splits if_splits
        dest: keyPhrasePost_calls triggerAddSubtopicLambda_calls)

lemma mainTopicPhase_unfold:
  "mainTopicPhase e q qd n =
     (let A = analyzeSentimentForTerm e (Topic qd) (PostsToAnalyze qd) q
      in case fst (fst A) of
           None \<Rightarrow> (False, snd A)
         | Some s \<Rightarrow>
             if \<not> succeeded (PutCommand_Data e (mainItem s))
             then (False, snd A @ [PutData (mainItem s) False])
             else if n = 0
             then (True, snd A @ PutData (mainItem s) True # firstRunActions e q qd (snd (fst A)))
             else (True, snd A @ [PutData (mainItem s) True]))"
  by (simp add: mainTopicPhase_def storeAnalysisResults_def storeItem_def Let_def case_prod_beta
        split: option.splits)

lemma analyzeSubtopic_unfold:
  "analyzeSubtopic e q qd sub =
     (let A = analyzeSentimentForTerm e sub (PostsToAnalyze qd) q
      in case fst (fst A) of
           None \<Rightarrow> snd A
         | Some s \<Rightarrow>
             snd A @ [PutData (subtopicItem s sub (Topic qd))
                        (succeeded (PutCommand_Data e (subtopicItem s sub (Topic qd))))])"
  by (simp add: analyzeSubtopic_def storeSubtopicAnalysisResults_def storeItem_def Let_def
        case_prod_beta split: option.splits)

lemma mainTopicPhase_calls:
  "c \<in> set (snd (mainTopicPhase e q qd n)) \<Longrightarrow>
     isSearch c \<or> isScoring c \<or> (\<exists>s b. c = PutData (mainItem s) b)
     \<or> (n = 0 \<and> (isSubscribe c \<or> isKeyPhraseExtraction c \<or> isRegistration c))"
  by (auto simp: mainTopicPhase_unfold Let_def split: option.splits if_splits
        dest!: analyze_calls firstRunActions_calls)

lemma analyzeSubtopic_calls:
  "c \<in> set (analyzeSubtopic e q qd sub) \<Longrightarrow>
     isSearch c \<or> isScoring c \<or> (\<exists>s b. c = PutData (subtopicItem s sub (Topic qd)) b)"
  by (auto simp: analyzeSubtopic_unfold Let_def split: option.splits dest!: analyze_calls)

lemma getSubtopics_calls: "c \<in> set (snd (getSubtopics e q)) \<Longrightarrow> c = InvokeGetSubtopic q"
  by (auto simp: getSubtopics_def Let_def split: if_splits sum.splits)

lemma subtopicPhase_unfold:
  "subtopicPhase e q qd n =
     (if n > 0
      then snd (getSubtopics e q) @ concat (map (analyzeSubtopic e q qd) (fst (getSubtopics e q)))
      else [])"
  by (simp add: subtopicPhase_def case_prod_beta)

lemma subtopicPhase_calls:
  "c \<in> set (subtopicPhase e q qd n) \<Longrightarrow>
     n > 0 \<and> (c = InvokeGetSubtopic q \<or> isSearch c \<or> isScoring c
               \<or> (\<exists>s sub b. c = PutData (subtopicItem s sub (Topic qd)) b))"
  by (auto simp: subtopicPhase_unfold split: if_splits
        dest!: getSubtopics_calls analyzeSubtopic_calls)

lemma finalizeQuery_unfold:
  "finalizeQuery e q qd =
     (if Email qd = [] then (Inr (), [DeleteSchedule q (DeleteScheduleCommand e q)])
      else if succeeded (PublishCommand e qd)
      then (Inr (), [Publish qd True, DeleteSchedule q (DeleteScheduleCommand e q)])
      else (Inl PublishRejected, [Publish qd False]))"
  by (simp add: finalizeQuery_def triggerEmailNotification_def deleteSchedule_def Let_def)

lemma getQueryDetails_calls:
  "c \<in> set (snd (getQueryDetails e q hint)) \<Longrightarrow> isLookup c"
  by (auto simp: getQueryDetails_def queryFallback_def Let_def
        split: if_splits sum.splits option.splits list.splits prod.splits)

text \<open>The interval after login, in terms of the two phases.\<close>

lemma runInterval_unfold:
  "runInterval e q qd n =
     (if \<not> truthy (BLUESKY_HANDLE e) \<or> \<not> truthy (BLUESKY_APP_PASSWORD e)
      then (Inl MissingBlueskyCredentials, [])
      else if \<not> succeeded (login e) then (Inl BlueskyAuthenticationFailed, [Login])
      else
        let M = mainTopicPhase e q qd n;
            c2 = subtopicPhase e q qd n;
            after = int n + (if fst M then 1 else 0)
        in if after \<ge> NumIntervals qd then
             (case fst (finalizeQuery e q qd) of
                Inl err \<Rightarrow> (Inl err, Login # snd M @ c2 @ snd (finalizeQuery e q qd))
              | Inr _ \<Rightarrow> (Inr (fst M, after), Login # snd M @ c2 @ snd (finalizeQuery e q qd)))
           else (Inr (fst M, after), Login # snd M @ c2))"
  by (simp add: runInterval_def Let_def case_prod_beta succeeded_def split: sum.splits prod.splits)


section \<open>The handler after its entry guards\<close>

lemma COUNTERS_TABLE_NAME_nonempty: "COUNTERS_TABLE_NAME e \<noteq> []"
  by (simp add: COUNTERS_TABLE_NAME_def env_or_def split: option.splits)

lemma handler_entry:
  assumes "entry e tbl event = Some (q, qd, c1)"
  shows "handler e tbl event =
     (if int (scanCount e tbl q) \<ge> NumIntervals qd then
        (case fst (finalizeQuery e q qd) of
           Inl err \<Rightarrow> (Inl err, c1 @ ScanData q # snd (finalizeQuery e q qd))
         | Inr _ \<Rightarrow> (Inr None, c1 @ ScanData q # snd (finalizeQuery e q qd)))
      else
        (case fst (runInterval e q qd (scanCount e tbl q)) of
           Inl err \<Rightarrow> (Inl err, c1 @ ScanData q # snd (runInterval e q qd (scanCount e tbl q)))
         | Inr r \<Rightarrow> (Inr (answer event (fst r) (snd r) (NumIntervals qd)),
                     c1 @ ScanData q # snd (runInterval e q qd (scanCount e tbl q)))))"
proof -
  from assms obtain hint where
    x: "extractQueryInfo event = Proceed q hint"
    and t: "truthy (QUERIES_TABLE_NAME e)" "truthy (DATA_TABLE_NAME e)"
    and g: "getQueryDetails e q hint = (Inr qd, c1)"
    and s: "Status qd \<noteq> Some (str ''COMPLETED'')" "Status qd \<noteq> Some (str ''CANCELLED'')"
    and sc: "succeeded (ScanCommand_Data e tbl q)"
    by (auto simp: entry_def split: extraction.splits if_splits prod.splits sum.splits)
  from sc obtain u where sc': "ScanCommand_Data e tbl q = Inr u"
    by (auto simp: succeeded_def split: sum.splits)
  show ?thesis
    unfolding handler_def
    by (simp add: x t g s sc' scanCount_def COUNTERS_TABLE_NAME_nonempty Let_def answer_def
          case_prod_beta split: sum.splits prod.splits)
qed

lemma entry_lookup:
  assumes "entry e tbl event = Some (q, qd, c1)"
  shows "\<forall>c \<in> set c1. isLookup c"
proof -
  from assms obtain hint where "getQueryDetails e q hint = (Inr qd, c1)"
    by (auto simp: entry_def split: extraction.splits if_splits prod.splits sum.splits)
  then have "c1 = snd (getQueryDetails e q hint)" by simp
  then show ?thesis using getQueryDetails_calls by blast
qed


section \<open>The early exit\<close>

lemma entry_env0: "entry env0 tbl ev7 = Some (7, qd0, [QueryQueries 7])"
  by (simp add: entry_def ev7_def extractQueryInfo_def env0_def truthy_def getQueryDetails_def
        queryFallback_def qd0_def succeeded_def)

lemma entry_publishRejected: "entry env_publishRejected tbl ev7 = Some (7, qd0, [QueryQueries 7])"
  by (simp add: entry_def ev7_def extractQueryInfo_def env_publishRejected_def env0_def truthy_def
        getQueryDetails_def queryFallback_def qd0_def succeeded_def)

lemma entry_noEmail: "entry env_noEmail tbl ev7 = Some (7, qd0\<lparr>Email := []\<rparr>, [QueryQueries 7])"
proof -
  have s: "Status (qd0\<lparr>Email := []\<rparr>) = None" by (simp add: qd0_def)
  show ?thesis
    by (simp add: entry_def ev7_def extractQueryInfo_def env_noEmail_def env0_def truthy_def
          getQueryDetails_def queryFallback_def s succeeded_def)
qed

text \<open>The environments of the scenarios answer the scan from the whole table.\<close>

lemma scanCount_whole:
  "ScanCommand_Data e tbl q = Inr (Some (runCount tbl q)) \<Longrightarrow> scanCount e tbl q = runCount tbl q"
  by (simp add: scanCount_def)

lemma count_env0: "scanCount env0 tbl q = runCount tbl q"
  by (rule scanCount_whole) (simp add: env0_def)

lemma count_publishRejected: "scanCount env_publishRejected tbl q = runCount tbl q"
  by (rule scanCount_whole) (simp add: env_publishRejected_def env0_def)

lemma count_noEmail: "scanCount env_noEmail tbl q = runCount tbl q"
  by (rule scanCount_whole) (simp add: env_noEmail_def env0_def)

lemma runCount_alt:
  "runCount tbl q = length (filter (\<lambda>it. item_QueryID it = q \<and> IsSubtopic it = Some False) tbl)"
proof -
  have "(\<lambda>it. item_QueryID it = q \<and> IsSubtopic it \<noteq> None \<and> IsSubtopic it = Some False)
        = (\<lambda>it. item_QueryID it = q \<and> IsSubtopic it = Some False)"
    by auto
  then show ?thesis unfolding runCount_def by (rule arg_cong)
qed

lemma runCount_done: "runCount tbl_done 7 = 2"
  by (simp add: runCount_alt tbl_done_def item_jazz_def mainItem_def)

lemma handler_early_exit:
  assumes "entry e tbl event = Some (q, qd, c1)" and "NumIntervals qd \<le> int (scanCount e tbl q)"
  shows "handler e tbl event =
      (if Email qd = [] then (Inr None, c1 @ [ScanData q, DeleteSchedule q (DeleteScheduleCommand e q)])
       else if succeeded (PublishCommand e qd)
       then (Inr None, c1 @ [ScanData q, Publish qd True, DeleteSchedule q (DeleteScheduleCommand e q)])
       else (Inl PublishRejected, c1 @ [ScanData q, Publish qd False]))"
  using assms(2) by (simp add: handler_entry[OF assms(1)] finalizeQuery_unfold)

text \<open>
  Claim C1, as stated, fails.  With a topic record in an active status and a run count
  that has reached \<^verbatim>\<open>NumIntervals\<close>, a rejected publish call ends the invocation with
  that error before the trigger-delete call is issued, and a record without an owner
  address gets the delete call but no notification.
\<close>

theorem C1_counterexample:
  "entry env_publishRejected tbl_done ev7 = Some (7, qd0, [QueryQueries 7])
   \<and> NumIntervals qd0 \<le> int (scanCount env_publishRejected tbl_done 7)
   \<and> handler env_publishRejected tbl_done ev7
       = (Inl PublishRejected, [QueryQueries 7, ScanData 7, Publish qd0 False])
   \<and> entry env_noEmail tbl_done ev7 = Some (7, qd0\<lparr>Email := []\<rparr>, [QueryQueries 7])
   \<and> NumIntervals (qd0\<lparr>Email := []\<rparr>) \<le> int (scanCount env_noEmail tbl_done 7)
   \<and> handler env_noEmail tbl_done ev7
       = (Inr None, [QueryQueries 7, ScanData 7, DeleteSchedule 7 Deleted])"
proof -
  have n: "NumIntervals qd0 \<le> int (scanCount env_publishRejected tbl_done 7)"
    by (simp add: count_publishRejected runCount_done qd0_def)
  have n': "NumIntervals (qd0\<lparr>Email := []\<rparr>) \<le> int (scanCount env_noEmail tbl_done 7)"
    by (simp add: count_noEmail runCount_done qd0_def)
  have a: "handler env_publishRejected tbl_done ev7
       = (Inl PublishRejected, [QueryQueries 7, ScanData 7, Publish qd0 False])"
    by (simp add: handler_early_exit[OF entry_publishRejected n] succeeded_def)
       (simp add: qd0_def env_publishRejected_def)
  have b: "handler env_noEmail tbl_done ev7
       = (Inr None, [QueryQueries 7, ScanData 7, DeleteSchedule 7 Deleted])"
    by (simp add: handler_early_exit[OF entry_noEmail n'])
       (simp add: env_noEmail_def env0_def)
  show ?thesis using n n' a b entry_publishRejected entry_noEmail by simp
qed

text \<open>
  Claim C1, amended.  For every invocation where the topic record exists, its status is
  neither \<^verbatim>\<open>COMPLETED\<close> nor \<^verbatim>\<open>CANCELLED\<close>, and the run count computed at entry is at
  least \<^verbatim>\<open>NumIntervals\<close>, the handler performs no feed search, no scoring, no
  key-phrase extraction and no write to the Result Store or the Subtopic Registry.  It
  publishes the completion notification when the record has an owner address (the
  notification is skipped for a record without one), then issues the trigger-delete call
  and returns; when the publish call is rejected the invocation ends with that error and
  the delete call is not issued.
\<close>

theorem C1_early_exit_finalizes:
  assumes "entry e tbl event = Some (q, qd, c1)" and "NumIntervals qd \<le> int (scanCount e tbl q)"
  shows "handler e tbl event =
      (if Email qd = [] then (Inr None, c1 @ [ScanData q, DeleteSchedule q (DeleteScheduleCommand e q)])
       else if succeeded (PublishCommand e qd)
       then (Inr None, c1 @ [ScanData q, Publish qd True, DeleteSchedule q (DeleteScheduleCommand e q)])
       else (Inl PublishRejected, c1 @ [ScanData q, Publish qd False]))
    \<and> (\<forall>c \<in> set (snd (handler e tbl event)).
          \<not> isSearch c \<and> \<not> isScoring c \<and> \<not> isKeyPhraseExtraction c \<and> \<not> isPut c
          \<and> \<not> isRegistration c)"
proof -
  have l: "\<forall>c \<in> set c1. isLookup c" using assms(1) by (rule entry_lookup)
  have k: "\<And>c. isLookup c \<Longrightarrow> \<not> isSearch c \<and> \<not> isScoring c \<and> \<not> isKeyPhraseExtraction c
                \<and> \<not> isPut c \<and> \<not> isRegistration c"
    subgoal for c by (cases c) simp_all
    done
  show ?thesis
    using l k by (auto simp: handler_early_exit[OF assms])
qed

theorem C1_early_exit_finalizes_witness:
  "entry env0 tbl_done ev7 = Some (7, qd0, [QueryQueries 7])
   \<and> NumIntervals qd0 \<le> int (scanCount env0 tbl_done 7)
   \<and> handler env0 tbl_done ev7
       = (Inr None, [QueryQueries 7, ScanData 7, Publish qd0 True, DeleteSchedule 7 Deleted])"
proof -
  have n: "NumIntervals qd0 \<le> int (scanCount env0 tbl_done 7)"
    by (simp add: count_env0 runCount_done qd0_def)
  have p: "Email qd0 \<noteq> []" "succeeded (PublishCommand env0 qd0)" "DeleteScheduleCommand env0 7 = Deleted"
    by (simp_all add: qd0_def env0_def succeeded_def)
  show ?thesis
    using C1_early_exit_finalizes[OF entry_env0 n, of ] n entry_env0 p by simp
qed


section \<open>What an interval writes and how it is finalized\<close>

lemma written_analyze: "concat (map written (snd (analyzeSentimentForTerm e trm limit q))) = []"
proof -
  have "\<forall>c \<in> set (snd (analyzeSentimentForTerm e trm limit q)). written c = []"
    using analyze_calls[of _ e trm limit q] by fastforce
  then show ?thesis by simp
qed

lemma written_firstRunActions: "concat (map written (firstRunActions e q qd posts)) = []"
proof -
  have "\<forall>c \<in> set (firstRunActions e q qd posts). written c = []"
    using firstRunActions_calls[of _ e q qd posts] by fastforce
  then show ?thesis by simp
qed

lemma written_getSubtopics: "concat (map written (snd (getSubtopics e q))) = []"
proof -
  have "\<forall>c \<in> set (snd (getSubtopics e q)). written c = []"
    using getSubtopics_calls[of _ e q] by fastforce
  then show ?thesis by simp
qed

lemma analyze_queryId:
  "fst (fst (analyzeSentimentForTerm e term limit q)) = Some s \<Longrightarrow> summary_queryId s = q"
  by (auto simp: analyzeSentimentForTerm_def summarize_def Let_def split: sum.splits if_splits)

lemma mainTopicPhase_stored:
  "fst (mainTopicPhase e q qd n) =
     (case fst (fst (analyzeSentimentForTerm e (Topic qd) (PostsToAnalyze qd) q)) of
        None \<Rightarrow> False
      | Some s \<Rightarrow> succeeded (PutCommand_Data e (mainItem s)))"
  by (simp add: mainTopicPhase_unfold Let_def split: option.splits)

lemma mainTopicPhase_written:
  "concat (map written (snd (mainTopicPhase e q qd n))) =
     (case fst (fst (analyzeSentimentForTerm e (Topic qd) (PostsToAnalyze qd) q)) of
        None \<Rightarrow> []
      | Some s \<Rightarrow> if succeeded (PutCommand_Data e (mainItem s)) then [mainItem s] else [])"
  by (simp add: mainTopicPhase_unfold Let_def written_analyze written_firstRunActions
        split: option.splits)

lemma runCount_append: "runCount (xs @ ys) q = runCount xs q + runCount ys q"
  by (simp add: runCount_def)

lemma runCount_main_written:
  "runCount (concat (map written (snd (mainTopicPhase e q qd n)))) q =
     (if fst (mainTopicPhase e q qd n) then 1 else 0)"
  by (auto simp: mainTopicPhase_written mainTopicPhase_stored runCount_alt mainItem_def
        split: option.splits dest: analyze_queryId)

lemma main_written_flag:
  "list_ex (\<lambda>it. IsSubtopic it = Some False) (concat (map written (snd (mainTopicPhase e q qd n))))
     = fst (mainTopicPhase e q qd n)"
  by (simp add: mainTopicPhase_written mainTopicPhase_stored mainItem_def split: option.splits)

lemma subtopicPhase_written:
  "it \<in> set (concat (map written (subtopicPhase e q qd n))) \<Longrightarrow> IsSubtopic it = Some True"
proof -
  assume "it \<in> set (concat (map written (subtopicPhase e q qd n)))"
  then obtain c where c: "c \<in> set (subtopicPhase e q qd n)" "it \<in> set (written c)" by auto
  from subtopicPhase_calls[OF c(1)] c(2) show ?thesis
    by (cases c) (auto simp: subtopicItem_def split: if_splits)
qed

lemma runCount_subtopic_written: "runCount (concat (map written (subtopicPhase e q qd n))) q = 0"
  using subtopicPhase_written[of _ e q qd n] by (auto simp: runCount_alt filter_empty_conv simp del: set_concat)

lemma sub_written_flag:
  "\<not> list_ex (\<lambda>it. IsSubtopic it = Some False) (concat (map written (subtopicPhase e q qd n)))"
  using subtopicPhase_written[of _ e q qd n] by (auto simp: list_ex_iff simp del: set_concat)

lemma fin_lookup: "\<forall>c \<in> set c1. isLookup c \<Longrightarrow> filter isFinalization c1 = [] \<and> concat (map written c1) = []"
proof -
  assume a: "\<forall>c \<in> set c1. isLookup c"
  have "\<And>c. isLookup c \<Longrightarrow> \<not> isFinalization c \<and> written c = []"
    subgoal for c by (cases c) (simp_all add: isFinalization_def)
    done
  with a show ?thesis by (auto simp: filter_empty_conv)
qed

lemma fin_main: "filter isFinalization (snd (mainTopicPhase e q qd n)) = []"
proof -
  have "\<forall>c \<in> set (snd (mainTopicPhase e q qd n)). \<not> isFinalization c"
  proof
    fix c assume "c \<in> set (snd (mainTopicPhase e q qd n))"
    from mainTopicPhase_calls[OF this] show "\<not> isFinalization c"
      by (cases c) (auto simp: isFinalization_def)
  qed
  then show ?thesis by (simp add: filter_empty_conv)
qed

lemma fin_sub: "filter isFinalization (subtopicPhase e q qd n) = []"
proof -
  have "\<forall>c \<in> set (subtopicPhase e q qd n). \<not> isFinalization c"
  proof
    fix c assume "c \<in> set (subtopicPhase e q qd n)"
    from subtopicPhase_calls[OF this] show "\<not> isFinalization c"
      by (cases c) (auto simp: isFinalization_def)
  qed
  then show ?thesis by (simp add: filter_empty_conv)
qed

text \<open>The trace and the result of an invocation that passes the guards and logs in.\<close>

lemma handler_interval:
  assumes "entry e tbl event = Some (q, qd, c1)" and "int (scanCount e tbl q) < NumIntervals qd"
    and "loggedIn e"
  shows "handler e tbl event =
    (let n = scanCount e tbl q;
         M = mainTopicPhase e q qd n;
         c2 = subtopicPhase e q qd n;
         after = int n + (if fst M then 1 else 0);
         pre = c1 @ ScanData q # Login # snd M @ c2
     in if after < NumIntervals qd then (Inr (answer event (fst M) after (NumIntervals qd)), pre)
        else if Email qd = []
        then (Inr (answer event (fst M) after (NumIntervals qd)),
              pre @ [DeleteSchedule q (DeleteScheduleCommand e q)])
        else if succeeded (PublishCommand e qd)
        then (Inr (answer event (fst M) after (NumIntervals qd)),
              pre @ [Publish qd True, DeleteSchedule q (DeleteScheduleCommand e q)])
        else (Inl PublishRejected, pre @ [Publish qd False]))"
  using assms(2,3)
  by (simp add: handler_entry[OF assms(1)] runInterval_unfold loggedIn_def finalizeQuery_unfold Let_def)


lemma interval_written:
  assumes "entry e tbl event = Some (q, qd, c1)" and "int (scanCount e tbl q) < NumIntervals qd"
    and "loggedIn e"
  shows "concat (map written (snd (handler e tbl event))) =
           concat (map written (snd (mainTopicPhase e q qd (scanCount e tbl q))))
           @ concat (map written (subtopicPhase e q qd (scanCount e tbl q)))"
  using fin_lookup[OF entry_lookup[OF assms(1)]]
  by (simp add: handler_interval[OF assms] Let_def)

lemma interval_stored:
  assumes "entry e tbl event = Some (q, qd, c1)" and "int (scanCount e tbl q) < NumIntervals qd"
    and "loggedIn e"
  shows "mainRecordWritten (snd (handler e tbl event)) = fst (mainTopicPhase e q qd (scanCount e tbl q))"
  unfolding mainRecordWritten_def interval_written[OF assms]
  using sub_written_flag[of e q qd "scanCount e tbl q"] main_written_flag[of e q qd "scanCount e tbl q"]
  by simp

lemma interval_finalization:
  assumes "entry e tbl event = Some (q, qd, c1)" and "int (scanCount e tbl q) < NumIntervals qd"
    and "loggedIn e"
  shows "filter isFinalization (snd (handler e tbl event)) =
     (if int (scanCount e tbl q) + (if fst (mainTopicPhase e q qd (scanCount e tbl q)) then 1 else 0)
           < NumIntervals qd then []
      else if Email qd = [] then [DeleteSchedule q (DeleteScheduleCommand e q)]
      else if succeeded (PublishCommand e qd)
      then [Publish qd True, DeleteSchedule q (DeleteScheduleCommand e q)]
      else [Publish qd False])"
  using fin_lookup[OF entry_lookup[OF assms(1)]]
  by (simp add: handler_interval[OF assms] Let_def fin_main fin_sub isFinalization_def)

lemma interval_result:
  assumes "entry e tbl event = Some (q, qd, c1)" and "int (scanCount e tbl q) < NumIntervals qd"
    and "loggedIn e"
  shows "fst (handler e tbl event) =
     (if NumIntervals qd \<le> int (scanCount e tbl q) + (if fst (mainTopicPhase e q qd (scanCount e tbl q)) then 1 else 0)
         \<and> Email qd \<noteq> [] \<and> \<not> succeeded (PublishCommand e qd)
      then Inl PublishRejected
      else Inr (answer event (fst (mainTopicPhase e q qd (scanCount e tbl q)))
                  (int (scanCount e tbl q) + (if fst (mainTopicPhase e q qd (scanCount e tbl q)) then 1 else 0))
                  (NumIntervals qd)))"
  by (simp add: handler_interval[OF assms] Let_def)

lemma scoredData_cong:
  "DetectSentimentCommand e = DetectSentimentCommand e' \<Longrightarrow> scoredData e ps = scoredData e' ps"
proof -
  assume a: "DetectSentimentCommand e = DetectSentimentCommand e'"
  have "successfullyScored e = successfullyScored e'"
    by (rule ext) (unfold successfullyScored_def a, rule refl)
  then show ?thesis by (simp add: scoredData_def)
qed

lemma main_stored_jazz:
  assumes "searchPosts e (str ''jazz'') 5 = Inr posts_jazz"
    and "DetectSentimentCommand e = DetectSentimentCommand env0"
    and "\<forall>it. succeeded (PutCommand_Data e it)"
    and "Topic qd = (str ''jazz'')" and "PostsToAnalyze qd = 5"
  shows "fst (mainTopicPhase e q qd n)"
proof -
  have "scoredData e posts_jazz \<noteq> []"
    using scoredData_cong[OF assms(2), of posts_jazz] by (simp add: scored_jazz)
  then show ?thesis
    using assms(1,3)
    by (simp add: mainTopicPhase_stored assms(4,5) analyze_summary summarize_scored Let_def)
qed

lemma loggedIn_env0: "loggedIn env0"
  by (simp add: loggedIn_def env0_def truthy_def succeeded_def)

lemma runCount_one: "runCount tbl_one 7 = 1"
  by (simp add: runCount_alt tbl_one_def item_jazz_def mainItem_def)

text \<open>
  Claim C2, as stated, fails in its second part.  On the second of two intervals the
  main-topic record is written and the effective run count reaches \<^verbatim>\<open>NumIntervals\<close>;
  for a record without an owner address the trigger is deleted and no notification is
  sent, and with a rejected publish call the invocation fails and the trigger is not
  deleted.
\<close>

theorem C2_counterexample:
  "entry env_noEmail tbl_one ev7 = Some (7, qd0\<lparr>Email := []\<rparr>, [QueryQueries 7])
   \<and> int (scanCount env_noEmail tbl_one 7) < NumIntervals (qd0\<lparr>Email := []\<rparr>)
   \<and> loggedIn env_noEmail
   \<and> mainRecordWritten (snd (handler env_noEmail tbl_one ev7))
   \<and> NumIntervals (qd0\<lparr>Email := []\<rparr>) \<le> int (scanCount env_noEmail tbl_one 7) + 1
   \<and> filter isFinalization (snd (handler env_noEmail tbl_one ev7)) = [DeleteSchedule 7 Deleted]
   \<and> entry env_publishRejected tbl_one ev7 = Some (7, qd0, [QueryQueries 7])
   \<and> int (scanCount env_publishRejected tbl_one 7) < NumIntervals qd0
   \<and> NumIntervals qd0 \<le> int (scanCount env_publishRejected tbl_one 7) + 1
   \<and> loggedIn env_publishRejected
   \<and> mainRecordWritten (snd (handler env_publishRejected tbl_one ev7))
   \<and> filter isFinalization (snd (handler env_publishRejected tbl_one ev7)) = [Publish qd0 False]
   \<and> fst (handler env_publishRejected tbl_one ev7) = Inl PublishRejected"
proof -
  let ?qd = "qd0\<lparr>Email := []\<rparr>"
  have lt: "int (scanCount env_noEmail tbl_one 7) < NumIntervals ?qd"
    "int (scanCount env_publishRejected tbl_one 7) < NumIntervals qd0"
    by (simp_all add: count_noEmail count_publishRejected runCount_one qd0_def)
  have l1: "loggedIn env_noEmail"
    by (simp add: loggedIn_def env_noEmail_def env0_def truthy_def succeeded_def)
  have l2: "loggedIn env_publishRejected"
    by (simp add: loggedIn_def env_publishRejected_def env0_def truthy_def succeeded_def)
  have m1: "\<And>n. fst (mainTopicPhase env_noEmail 7 ?qd n)"
    by (rule main_stored_jazz) (simp_all add: env_noEmail_def env0_def succeeded_def qd0_def)
  have m2: "\<And>n. fst (mainTopicPhase env_publishRejected 7 qd0 n)"
    by (rule main_stored_jazz) (simp_all add: env_publishRejected_def env0_def succeeded_def qd0_def)
  have f1: "filter isFinalization (snd (handler env_noEmail tbl_one ev7)) = [DeleteSchedule 7 Deleted]"
    by (simp add: interval_finalization[OF entry_noEmail lt(1) l1] m1 count_noEmail runCount_one)
       (simp add: qd0_def env_noEmail_def env0_def)
  have f2: "filter isFinalization (snd (handler env_publishRejected tbl_one ev7)) = [Publish qd0 False]"
    by (simp add: interval_finalization[OF entry_publishRejected lt(2) l2] m2 count_publishRejected runCount_one)
       (simp add: qd0_def env_publishRejected_def succeeded_def)
  have r2: "fst (handler env_publishRejected tbl_one ev7) = Inl PublishRejected"
    by (simp add: interval_result[OF entry_publishRejected lt(2) l2] m2 count_publishRejected runCount_one)
       (simp add: qd0_def env_publishRejected_def succeeded_def)
  have n: "NumIntervals ?qd \<le> int (scanCount env_noEmail tbl_one 7) + 1"
    "NumIntervals qd0 \<le> int (scanCount env_publishRejected tbl_one 7) + 1"
    by (simp_all add: count_noEmail count_publishRejected runCount_one qd0_def)
  show ?thesis
    using entry_noEmail entry_publishRejected lt l1 l2 m1 m2 f1 f2 r2 n
    by (simp add: interval_stored[OF entry_noEmail lt(1) l1]
          interval_stored[OF entry_publishRejected lt(2) l2])
qed

text \<open>
  Claim C2, amended.  For every invocation that passes the entry guards and logs in, the
  effective run count is the entry run count plus 1 exactly when a main-topic Result
  record was written this invocation (plus 0 otherwise), and the table holds one more
  main-topic record of the query afterwards in exactly that case.  When it is below
  \<^verbatim>\<open>NumIntervals\<close> neither the notification nor the trigger-delete call is issued (in
  particular an invocation that stores no main-topic record never deletes the trigger).
  When it has reached \<^verbatim>\<open>NumIntervals\<close>, the notification is published if the record has
  an owner address (it is skipped otherwise) and the trigger-delete call follows; a
  rejected publish call ends the invocation with that error before the delete call.
\<close>

theorem C2_effective_run_count:
  assumes "entry e tbl event = Some (q, qd, c1)" and "int (scanCount e tbl q) < NumIntervals qd"
    and "loggedIn e"
  shows "let tr = snd (handler e tbl event);
             stored = mainRecordWritten tr;
             after = int (scanCount e tbl q) + (if stored then 1 else 0)
         in runCount (tableAfter tbl tr) q = runCount tbl q + (if stored then 1 else 0)
            \<and> fst (handler e tbl event) =
                (if NumIntervals qd \<le> after \<and> Email qd \<noteq> [] \<and> \<not> succeeded (PublishCommand e qd)
                 then Inl PublishRejected
                 else Inr (answer event stored after (NumIntervals qd)))
            \<and> filter isFinalization tr =
                (if after < NumIntervals qd then []
                 else if Email qd = [] then [DeleteSchedule q (DeleteScheduleCommand e q)]
                 else if succeeded (PublishCommand e qd)
                 then [Publish qd True, DeleteSchedule q (DeleteScheduleCommand e q)]
                 else [Publish qd False])
            \<and> (\<not> stored \<longrightarrow> filter isFinalization tr = [])"
proof -
  let ?n = "scanCount e tbl q"
  have s: "mainRecordWritten (snd (handler e tbl event)) = fst (mainTopicPhase e q qd ?n)"
    by (rule interval_stored[OF assms])
  have t: "runCount (tableAfter tbl (snd (handler e tbl event))) q
             = runCount tbl q + (if fst (mainTopicPhase e q qd ?n) then 1 else 0)"
    by (simp add: tableAfter_def runCount_append interval_written[OF assms]
          runCount_main_written runCount_subtopic_written)
  show ?thesis
    using assms(2)
    by (simp add: Let_def s t interval_finalization[OF assms] interval_result[OF assms])
qed

theorem C2_effective_run_count_witness:
  "entry env0 tbl_one ev7 = Some (7, qd0, [QueryQueries 7])
   \<and> int (scanCount env0 tbl_one 7) < NumIntervals qd0
   \<and> loggedIn env0
   \<and> mainRecordWritten (snd (handler env0 tbl_one ev7))
   \<and> runCount (tableAfter tbl_one (snd (handler env0 tbl_one ev7))) 7 = 2
   \<and> fst (handler env0 tbl_one ev7) = Inr None
   \<and> filter isFinalization (snd (handler env0 tbl_one ev7)) = [Publish qd0 True, DeleteSchedule 7 Deleted]"
proof -
  have lt: "int (scanCount env0 tbl_one 7) < NumIntervals qd0"
    by (simp add: count_env0 runCount_one qd0_def)
  have m: "\<And>n. fst (mainTopicPhase env0 7 qd0 n)"
    by (rule main_stored_jazz) (simp_all add: env0_def succeeded_def qd0_def)
  have s: "mainRecordWritten (snd (handler env0 tbl_one ev7))"
    by (simp add: interval_stored[OF entry_env0 lt loggedIn_env0] m)
  have p: "Email qd0 \<noteq> []" "succeeded (PublishCommand env0 qd0)" "DeleteScheduleCommand env0 7 = Deleted"
    "NumIntervals qd0 = 2" "isScheduledEvent ev7"
    by (simp_all add: qd0_def env0_def succeeded_def ev7_def isScheduledEvent_def)
  show ?thesis
    using C2_effective_run_count[OF entry_env0 lt loggedIn_env0] entry_env0 lt loggedIn_env0 s p
    by (simp add: Let_def count_env0 runCount_one answer_def)
qed


section \<open>First-run actions\<close>

lemma handler_no_entry:
  assumes "entry e tbl event = None"
  shows "\<forall>c \<in> set (snd (handler e tbl event)). isLookup c \<or> isDelete c \<or> (\<exists>q. c = ScanData q)"
proof -
  have g: "\<And>q hint r c c1. getQueryDetails e q hint = (r, c1) \<Longrightarrow> c \<in> set c1 \<Longrightarrow> isLookup c"
    using getQueryDetails_calls by (metis snd_conv)
  show ?thesis
    using assms
    by (auto simp: handler_def entry_def deleteSchedule_def succeeded_def
          split: extraction.splits if_splits prod.splits sum.splits dest: g)
qed

lemma kinds_disjoint:
  "isLookup c \<or> isDelete c \<or> isPublish c \<or> (\<exists>q. c = ScanData q) \<or> c = Login
     \<Longrightarrow> \<not> isKeyPhraseExtraction c \<and> \<not> isRegistration c \<and> \<not> isSubscribe c \<and> \<not> isPut c
         \<and> \<not> isSearch c \<and> \<not> isScoring c"
  by (cases c) auto

lemma analyze_has_text:
  assumes "fst (fst (analyzeSentimentForTerm e trm limit q)) = Some s"
  shows "\<exists>p \<in> set (snd (fst (analyzeSentimentForTerm e trm limit q))). \<not> no_text (record_text p)"
proof -
  from assms obtain posts where p: "searchPosts e trm limit = Inr posts"
    by (cases "searchPosts e trm limit") (auto simp: analyzeSentimentForTerm_def)
  with assms have ne: "scoredData e posts \<noteq> []"
    by (auto simp: analyze_summary summarize_scored Let_def split: if_splits)
  then obtain x where "x \<in> set posts" "successfullyScored e x \<noteq> None"
    by (auto simp: scoredData_def List.map_filter_def filter_empty_conv)
  then have "x \<in> set posts" "\<not> no_text (record_text x)"
    by (auto simp: successfullyScored_def no_text_def split: option.splits if_splits)
  moreover have "snd (fst (analyzeSentimentForTerm e trm limit q)) = posts"
    using p assms by (auto simp: analyzeSentimentForTerm_def Let_def split: if_splits)
  ultimately show ?thesis by blast
qed

lemma keyPhrasePost_text:
  "\<not> no_text (record_text p) \<Longrightarrow> \<exists>t. snd (keyPhrasePost e p) = [DetectKeyPhrases t]"
  by (auto simp: keyPhrasePost_def no_text_def Let_def split: option.splits)

lemma firstRunActions_extracts:
  assumes "\<exists>p \<in> set posts. \<not> no_text (record_text p)"
  shows "list_ex isKeyPhraseExtraction (firstRunActions e q qd posts) = succeeded (SubscribeCommand e (Email qd))"
proof (cases "SubscribeCommand e (Email qd)")
  case (Inl a)
  then show ?thesis by (simp add: firstRunActions_def succeeded_def)
next
  case (Inr b)
  from assms obtain p where p: "p \<in> set posts" "\<not> no_text (record_text p)" by blast
  then obtain t where "snd (keyPhrasePost e p) = [DetectKeyPhrases t]"
    using keyPhrasePost_text by blast
  with p(1) have "list_ex isKeyPhraseExtraction (concat (map snd (map (keyPhrasePost e) posts)))"
    by (force simp: list_ex_iff)
  moreover have "posts \<noteq> []" using p(1) by auto
  ultimately show ?thesis using Inr
    by (simp add: firstRunActions_def succeeded_def Let_def)
qed

lemma no_kp_analyze: "\<not> list_ex isKeyPhraseExtraction (snd (analyzeSentimentForTerm e trm limit q))"
proof
  assume "list_ex isKeyPhraseExtraction (snd (analyzeSentimentForTerm e trm limit q))"
  then obtain c where c: "c \<in> set (snd (analyzeSentimentForTerm e trm limit q))" "isKeyPhraseExtraction c"
    by (auto simp: list_ex_iff)
  from analyze_calls[OF c(1)] c(2) show False by auto
qed

lemma mainTopicPhase_extracts:
  "list_ex isKeyPhraseExtraction (snd (mainTopicPhase e q qd n))
     = (n = 0 \<and> fst (mainTopicPhase e q qd n) \<and> succeeded (SubscribeCommand e (Email qd)))"
proof (cases "fst (fst (analyzeSentimentForTerm e (Topic qd) (PostsToAnalyze qd) q))")
  case None
  then show ?thesis by (simp add: mainTopicPhase_unfold no_kp_analyze)
next
  case (Some s)
  from analyze_has_text[OF Some]
  have "list_ex isKeyPhraseExtraction
          (firstRunActions e q qd (snd (fst (analyzeSentimentForTerm e (Topic qd) (PostsToAnalyze qd) q))))
        = succeeded (SubscribeCommand e (Email qd))"
    by (rule firstRunActions_extracts)
  then show ?thesis using Some
    by (simp add: mainTopicPhase_unfold no_kp_analyze Let_def)
qed

lemma list_ex_none: "(\<And>c. c \<in> set xs \<Longrightarrow> \<not> P c) \<Longrightarrow> \<not> list_ex P xs"
  by (auto simp: list_ex_iff)

lemma firstRunActions_registers:
  "list_ex isRegistration (firstRunActions e q qd posts) \<Longrightarrow>
     list_ex isKeyPhraseExtraction (firstRunActions e q qd posts)"
proof -
  assume r: "list_ex isRegistration (firstRunActions e q qd posts)"
  have sub: "succeeded (SubscribeCommand e (Email qd))"
    using r by (auto simp: firstRunActions_def succeeded_def split: sum.splits)
  have "\<exists>p \<in> set posts. \<not> no_text (record_text p)"
  proof (rule ccontr)
    assume "\<not> (\<exists>p \<in> set posts. \<not> no_text (record_text p))"
    then have a: "\<forall>p \<in> set posts. no_text (record_text p)" by blast
    then have "\<forall>p \<in> set posts. keyPhrasePost e p = (None, [])"
      by (auto simp: keyPhrasePost_def no_text_def split: option.splits)
    then have m: "map fst (map (keyPhrasePost e) posts) = replicate (length posts) None"
      by (induction posts) simp_all
    have f: "\<And>pc k. foldl (countPost e (Topic qd)) pc (replicate k None) = pc"
      subgoal for pc k by (induction k) (simp_all add: countPost_def)
      done
    have e: "concat (map (triggerAddSubtopicLambda e q) (finalSubtopics e (Topic qd) [])) = []"
      by (simp add: finalSubtopics_def potentialSubtopics_def sortedPhrases_def Object_entries_def
            Array_sort_def consistentComparator_def stableSort_def)
    have k: "\<not> list_ex isRegistration (concat (map snd (map (keyPhrasePost e) posts)))"
      by (rule list_ex_none) (auto dest: keyPhrasePost_calls)
    have "\<not> list_ex isRegistration (firstRunActions e q qd posts)"
      unfolding firstRunActions_def Let_def m f e
      using k by (simp split: sum.splits)
    with r show False by blast
  qed
  then show ?thesis using sub by (simp add: firstRunActions_extracts)
qed

lemma mainTopicPhase_registers:
  "list_ex isRegistration (snd (mainTopicPhase e q qd n)) \<Longrightarrow>
     list_ex isKeyPhraseExtraction (snd (mainTopicPhase e q qd n))"
proof -
  assume r: "list_ex isRegistration (snd (mainTopicPhase e q qd n))"
  have na: "\<not> list_ex isRegistration (snd (analyzeSentimentForTerm e (Topic qd) (PostsToAnalyze qd) q))"
  proof
    assume "list_ex isRegistration (snd (analyzeSentimentForTerm e (Topic qd) (PostsToAnalyze qd) q))"
    then obtain c where c: "c \<in> set (snd (analyzeSentimentForTerm e (Topic qd) (PostsToAnalyze qd) q))"
      "isRegistration c" by (auto simp: list_ex_iff)
    from analyze_calls[OF c(1)] c(2) show False by auto
  qed
  show ?thesis
    using r na
    by (auto simp: mainTopicPhase_unfold Let_def split: option.splits if_splits
          dest: firstRunActions_registers)
qed

lemma subtopicPhase_no_first_run:
  "\<not> list_ex isKeyPhraseExtraction (subtopicPhase e q qd n)
   \<and> \<not> list_ex isRegistration (subtopicPhase e q qd n)
   \<and> \<not> list_ex isSubscribe (subtopicPhase e q qd n)"
proof -
  have "\<And>c. c \<in> set (subtopicPhase e q qd n) \<Longrightarrow>
          \<not> isKeyPhraseExtraction c \<and> \<not> isRegistration c \<and> \<not> isSubscribe c"
    subgoal for c using subtopicPhase_calls[of c e q qd n] by (cases c) auto
    done
  then show ?thesis by (auto simp: list_ex_iff)
qed


text \<open>Key-phrase extraction and registration calls of a whole invocation.\<close>

lemma handler_extracts:
  assumes "entry e tbl event = Some (q, qd, c1)"
  shows "list_ex isKeyPhraseExtraction (snd (handler e tbl event))
         = (scanCount e tbl q = 0 \<and> 0 < NumIntervals qd \<and> loggedIn e
            \<and> fst (mainTopicPhase e q qd 0) \<and> succeeded (SubscribeCommand e (Email qd)))"
    and "list_ex isRegistration (snd (handler e tbl event))
         \<Longrightarrow> list_ex isKeyPhraseExtraction (snd (handler e tbl event))"
proof -
  let ?n = "scanCount e tbl q"
  have l: "\<not> list_ex isKeyPhraseExtraction c1" "\<not> list_ex isRegistration c1"
    using entry_lookup[OF assms] kinds_disjoint by (auto simp: list_ex_iff)
  show "list_ex isKeyPhraseExtraction (snd (handler e tbl event))
         = (scanCount e tbl q = 0 \<and> 0 < NumIntervals qd \<and> loggedIn e
            \<and> fst (mainTopicPhase e q qd 0) \<and> succeeded (SubscribeCommand e (Email qd)))"
    using l subtopicPhase_no_first_run[of e q qd ?n]
    by (auto simp: handler_entry[OF assms] runInterval_unfold finalizeQuery_unfold Let_def
          loggedIn_def mainTopicPhase_extracts split: sum.splits)
  show "list_ex isRegistration (snd (handler e tbl event))
         \<Longrightarrow> list_ex isKeyPhraseExtraction (snd (handler e tbl event))"
    using l subtopicPhase_no_first_run[of e q qd ?n]
    by (auto simp: handler_entry[OF assms] runInterval_unfold finalizeQuery_unfold Let_def
          split: sum.splits if_splits dest: mainTopicPhase_registers)
qed

lemma handler_no_entry_first_run:
  assumes "entry e tbl event = None"
  shows "\<not> list_ex isKeyPhraseExtraction (snd (handler e tbl event))"
    and "\<not> list_ex isRegistration (snd (handler e tbl event))"
  using handler_no_entry[OF assms] kinds_disjoint by (auto simp: list_ex_iff)


lemma analyze_no_posts:
  "searchPosts e trm limit = Inr [] \<Longrightarrow>
     analyzeSentimentForTerm e trm limit q = ((None, []), [SearchPosts trm limit])"
  by (simp add: analyzeSentimentForTerm_def)

lemma analyze_quiet:
  assumes "searchPosts e (str ''quiet'') 5 = Inr posts_quiet"
    and "DetectSentimentCommand e = DetectSentimentCommand env0"
  shows "analyzeSentimentForTerm e (str ''quiet'') 5 q
           = ((None, posts_quiet), [SearchPosts (str ''quiet'') 5, DetectSentiment [98]])"
proof -
  have s: "fst (fst (analyzeSentimentForTerm e (str ''quiet'') 5 q)) = None"
    using scoredData_cong[OF assms(2), of posts_quiet]
    by (simp add: analyze_summary[OF assms(1)] summarize_scored scored_quiet)
  have t: "textToAnalyze [98] = [98]" by (rule textToAnalyze_short) simp_all
  have c: "snd (fst (analyzeSentimentForTerm e (str ''quiet'') 5 q)) = posts_quiet
           \<and> snd (analyzeSentimentForTerm e (str ''quiet'') 5 q) = [SearchPosts (str ''quiet'') 5, DetectSentiment [98]]"
    by (simp add: analyzeSentimentForTerm_def assms(1) Let_def)
       (simp add: posts_quiet_def scorePost_def no_text_def is_js_space_def t Let_def)
  show ?thesis using s c by (metis prod.collapse)
qed

lemma loggedIn_quiet: "loggedIn env_quiet"
  by (simp add: loggedIn_def env_quiet_def env0_def truthy_def succeeded_def)

lemma loggedIn_silence: "loggedIn env_silence"
  by (simp add: loggedIn_def env_silence_def env0_def truthy_def succeeded_def)

lemma entry_quiet: "entry env_quiet tbl ev7 = Some (7, qd0\<lparr>Topic := (str ''quiet'')\<rparr>, [QueryQueries 7])"
proof -
  have s: "Status (qd0\<lparr>Topic := (str ''quiet'')\<rparr>) = None" by (simp add: qd0_def)
  show ?thesis
    by (simp add: entry_def ev7_def extractQueryInfo_def env_quiet_def env0_def truthy_def
          getQueryDetails_def queryFallback_def s succeeded_def)
qed

lemma entry_silence: "entry env_silence tbl ev7 = Some (7, qd0\<lparr>Topic := (str ''silence'')\<rparr>, [QueryQueries 7])"
proof -
  have s: "Status (qd0\<lparr>Topic := (str ''silence'')\<rparr>) = None" by (simp add: qd0_def)
  show ?thesis
    by (simp add: entry_def ev7_def extractQueryInfo_def env_silence_def env0_def truthy_def
          getQueryDetails_def queryFallback_def s succeeded_def)
qed

lemma runCount_empty: "runCount [] q = 0"
  by (simp add: runCount_def)

lemma count_silence_empty: "scanCount env_silence [] 7 = 0"
  by (simp add: scanCount_def env_silence_def env0_def runCount_empty)

lemma scheduled_ev7: "isScheduledEvent ev7"
  by (simp add: ev7_def isScheduledEvent_def)

text \<open>
  Claim C4, as stated, fails in the direction from the run count to the actions: on an
  invocation that observes run count 0 and finds posts of which none can be scored, no
  key-phrase extraction and no subtopic registration takes place.
\<close>

theorem C4_counterexample:
  "entryRunCount env_quiet [] ev7 = Some 0
   \<and> handler env_quiet [] ev7
       = (Inr None, [QueryQueries 7, ScanData 7, Login, SearchPosts (str ''quiet'') 5, DetectSentiment [98]])"
proof -
  let ?qd = "qd0\<lparr>Topic := (str ''quiet'')\<rparr>"
  have q: "Topic ?qd = (str ''quiet'')" "PostsToAnalyze ?qd = 5" "NumIntervals ?qd = 2"
    by (simp_all add: qd0_def)
  have a: "analyzeSentimentForTerm env_quiet (str ''quiet'') 5 7
           = ((None, posts_quiet), [SearchPosts (str ''quiet'') 5, DetectSentiment [98]])"
    by (rule analyze_quiet) (simp_all add: env_quiet_def env0_def)
  have m: "mainTopicPhase env_quiet 7 ?qd 0 = (False, [SearchPosts (str ''quiet'') 5, DetectSentiment [98]])"
    by (simp add: mainTopicPhase_unfold q a)
  have z: "scanCount env_quiet [] 7 = 0"
    by (simp add: scanCount_def env_quiet_def env0_def runCount_empty)
  have lt: "int (scanCount env_quiet [] 7) < NumIntervals ?qd" by (simp add: z q)
  have "handler env_quiet [] ev7
       = (Inr None, [QueryQueries 7, ScanData 7, Login, SearchPosts (str ''quiet'') 5, DetectSentiment [98]])"
    by (simp add: handler_interval[OF entry_quiet lt loggedIn_quiet] z m q
          subtopicPhase_unfold answer_def scheduled_ev7)
  then show ?thesis by (simp add: entryRunCount_def entry_quiet z)
qed

text \<open>
  Claim C4, amended.  For every invocation, key-phrase extraction and subtopic
  registration occur only if the main-topic run count observed at invocation start is
  exactly 0.  On an invocation that observes run count 0, key-phrase extraction occurs
  exactly when the invocation passes the entry guard and the login, a main-topic Result
  record is written, and the subscription of the owner succeeds; subtopic registration
  occurs only in an invocation in which key-phrase extraction occurs.
\<close>

theorem C4_first_run_exclusive:
  "(list_ex isKeyPhraseExtraction (snd (handler e tbl event))
      \<or> list_ex isRegistration (snd (handler e tbl event))
     \<longrightarrow> entryRunCount e tbl event = Some 0)
   \<and> (entry e tbl event = Some (q, qd, c1) \<and> scanCount e tbl q = 0
        \<longrightarrow> list_ex isKeyPhraseExtraction (snd (handler e tbl event))
            = (0 < NumIntervals qd \<and> loggedIn e \<and> mainRecordWritten (snd (handler e tbl event))
               \<and> succeeded (SubscribeCommand e (Email qd))))
   \<and> (list_ex isRegistration (snd (handler e tbl event))
        \<longrightarrow> list_ex isKeyPhraseExtraction (snd (handler e tbl event)))"
proof (intro conjI impI)
  assume a: "list_ex isKeyPhraseExtraction (snd (handler e tbl event))
             \<or> list_ex isRegistration (snd (handler e tbl event))"
  show "entryRunCount e tbl event = Some 0"
  proof (cases "entry e tbl event")
    case None
    with a handler_no_entry_first_run show ?thesis by blast
  next
    case (Some x)
    obtain q' qd' c1' where x: "x = (q', qd', c1')" by (cases x) auto
    with Some have en: "entry e tbl event = Some (q', qd', c1')" by simp
    from a handler_extracts(2)[OF en]
    have "list_ex isKeyPhraseExtraction (snd (handler e tbl event))" by blast
    then have "scanCount e tbl q' = 0" by (simp add: handler_extracts(1)[OF en])
    then show ?thesis by (simp add: entryRunCount_def en)
  qed
next
  assume a: "entry e tbl event = Some (q, qd, c1) \<and> scanCount e tbl q = 0"
  then have en: "entry e tbl event = Some (q, qd, c1)" and z: "scanCount e tbl q = 0" by simp_all
  show "list_ex isKeyPhraseExtraction (snd (handler e tbl event))
        = (0 < NumIntervals qd \<and> loggedIn e \<and> mainRecordWritten (snd (handler e tbl event))
           \<and> succeeded (SubscribeCommand e (Email qd)))"
  proof (cases "0 < NumIntervals qd \<and> loggedIn e")
    case True
    then have lt: "int (scanCount e tbl q) < NumIntervals qd" and li: "loggedIn e" by (simp_all add: z)
    show ?thesis
      using True by (simp add: handler_extracts(1)[OF en] interval_stored[OF en lt li] z)
  next
    case False
    then show ?thesis by (auto simp: handler_extracts(1)[OF en])
  qed
next
  assume a: "list_ex isRegistration (snd (handler e tbl event))"
  show "list_ex isKeyPhraseExtraction (snd (handler e tbl event))"
  proof (cases "entry e tbl event")
    case None
    with a handler_no_entry_first_run show ?thesis by blast
  next
    case (Some x)
    obtain q' qd' c1' where x: "x = (q', qd', c1')" by (cases x) auto
    with Some have en: "entry e tbl event = Some (q', qd', c1')" by simp
    from a show ?thesis by (rule handler_extracts(2)[OF en])
  qed
qed

theorem C4_first_run_exclusive_witness:
  "entry env0 [] ev7 = Some (7, qd0, [QueryQueries 7]) \<and> scanCount env0 [] 7 = 0
   \<and> 0 < NumIntervals qd0 \<and> loggedIn env0 \<and> mainRecordWritten (snd (handler env0 [] ev7))
   \<and> succeeded (SubscribeCommand env0 (Email qd0))
   \<and> list_ex isKeyPhraseExtraction (snd (handler env0 [] ev7))
   \<and> entryRunCount env0 [] ev7 = Some 0"
proof -
  have z: "scanCount env0 [] 7 = 0" by (simp add: count_env0 runCount_empty)
  have lt: "int (scanCount env0 [] 7) < NumIntervals qd0" "0 < NumIntervals qd0"
    by (simp_all add: z qd0_def)
  have m: "\<And>n. fst (mainTopicPhase env0 7 qd0 n)"
    by (rule main_stored_jazz) (simp_all add: env0_def succeeded_def qd0_def)
  have s: "mainRecordWritten (snd (handler env0 [] ev7))"
    by (simp add: interval_stored[OF entry_env0 lt(1) loggedIn_env0] m)
  have u: "succeeded (SubscribeCommand env0 (Email qd0))"
    by (simp add: env0_def succeeded_def)
  show ?thesis
    using C4_first_run_exclusive[of env0 "[]" ev7 7 qd0 "[QueryQueries 7]"]
      entry_env0 z lt loggedIn_env0 s u
    by simp
qed

section \<open>A first interval without posts\<close>

lemma handler_first_no_posts:
  assumes "entry e tbl event = Some (q, qd, c1)" and "scanCount e tbl q = 0" and "0 < NumIntervals qd"
    and "loggedIn e" and "searchPosts e (Topic qd) (PostsToAnalyze qd) = Inr []"
  shows "handler e tbl event =
           (Inr (answer event False 0 (NumIntervals qd)),
            c1 @ [ScanData q, Login, SearchPosts (Topic qd) (PostsToAnalyze qd)])"
proof -
  have lt: "int (scanCount e tbl q) < NumIntervals qd" using assms(2,3) by simp
  have m: "mainTopicPhase e q qd 0 = (False, [SearchPosts (Topic qd) (PostsToAnalyze qd)])"
    by (simp add: mainTopicPhase_unfold analyze_no_posts[OF assms(5)])
  show ?thesis
    using assms(3)
    by (simp add: handler_interval[OF assms(1) lt assms(4)] assms(2) m subtopicPhase_unfold)
qed

text \<open>
  Claim C5, as stated, fails in its last part: on a first interval whose main-topic
  search returns no post, the trace of the invocation ends with the search; the owner's
  address is not subscribed.
\<close>

theorem C5_counterexample:
  "entry env_silence [] ev7 = Some (7, qd0\<lparr>Topic := (str ''silence'')\<rparr>, [QueryQueries 7])
   \<and> scanCount env_silence [] 7 = 0
   \<and> searchPosts env_silence (str ''silence'') 5 = Inr []
   \<and> handler env_silence [] ev7
       = (Inr None, [QueryQueries 7, ScanData 7, Login, SearchPosts (str ''silence'') 5])"
proof -
  let ?qd = "qd0\<lparr>Topic := (str ''silence'')\<rparr>"
  have q: "Topic ?qd = (str ''silence'')" "PostsToAnalyze ?qd = 5" "0 < NumIntervals ?qd"
    by (simp_all add: qd0_def)
  have sp: "searchPosts env_silence (str ''silence'') 5 = Inr []"
    by (simp add: env_silence_def env0_def)
  then have sp': "searchPosts env_silence (Topic ?qd) (PostsToAnalyze ?qd) = Inr []"
    by (simp only: q)
  have "handler env_silence [] ev7
       = (Inr None, [QueryQueries 7, ScanData 7, Login, SearchPosts (str ''silence'') 5])"
    by (simp add: handler_first_no_posts[OF entry_silence count_silence_empty q(3) loggedIn_silence sp']
          q answer_def scheduled_ev7)
  then show ?thesis using entry_silence sp by (simp add: count_silence_empty)
qed

text \<open>
  Claim C5, amended.  For every first-interval invocation (observed run count 0) where
  the main-topic search returns 0 posts, no main-topic Result record is written and the
  run count stays 0, subtopic discovery is skipped, and the topic owner's address is
  not subscribed in that invocation: the subscription belongs to the first-run block,
  which is entered only after a main-topic Result record has been stored.
\<close>

theorem C5_first_interval_no_posts:
  assumes "entry e tbl event = Some (q, qd, c1)" and "scanCount e tbl q = 0" and "0 < NumIntervals qd"
    and "loggedIn e" and "searchPosts e (Topic qd) (PostsToAnalyze qd) = Inr []"
  shows "handler e tbl event =
           (Inr (answer event False 0 (NumIntervals qd)),
            c1 @ [ScanData q, Login, SearchPosts (Topic qd) (PostsToAnalyze qd)])
         \<and> tableAfter tbl (snd (handler e tbl event)) = tbl
         \<and> scanCount e (tableAfter tbl (snd (handler e tbl event))) q = 0
         \<and> \<not> list_ex isPut (snd (handler e tbl event))
         \<and> \<not> list_ex isKeyPhraseExtraction (snd (handler e tbl event))
         \<and> \<not> list_ex isRegistration (snd (handler e tbl event))
         \<and> \<not> list_ex isSubscribe (snd (handler e tbl event))"
proof -
  have l: "\<And>c. c \<in> set c1 \<Longrightarrow> \<not> isKeyPhraseExtraction c \<and> \<not> isRegistration c \<and> \<not> isSubscribe c \<and> \<not> isPut c"
    using entry_lookup[OF assms(1)] kinds_disjoint by blast
  have w: "concat (map written c1) = []"
    using fin_lookup[OF entry_lookup[OF assms(1)]] by simp
  show ?thesis
    using l
    by (auto simp: handler_first_no_posts[OF assms] tableAfter_def w assms(2) list_ex_iff)
qed

theorem C5_first_interval_no_posts_witness:
  "entry env_silence [] ev7 = Some (7, qd0\<lparr>Topic := (str ''silence'')\<rparr>, [QueryQueries 7])
   \<and> scanCount env_silence [] 7 = 0 \<and> 0 < NumIntervals (qd0\<lparr>Topic := (str ''silence'')\<rparr>) \<and> loggedIn env_silence
   \<and> searchPosts env_silence (Topic (qd0\<lparr>Topic := (str ''silence'')\<rparr>))
        (PostsToAnalyze (qd0\<lparr>Topic := (str ''silence'')\<rparr>)) = Inr []
   \<and> scanCount env_silence (tableAfter [] (snd (handler env_silence [] ev7))) 7 = 0
   \<and> \<not> list_ex isSubscribe (snd (handler env_silence [] ev7))
   \<and> \<not> list_ex isPut (snd (handler env_silence [] ev7))"
proof -
  let ?qd = "qd0\<lparr>Topic := (str ''silence'')\<rparr>"
  have q: "0 < NumIntervals ?qd" by (simp add: qd0_def)
  have sp: "searchPosts env_silence (Topic ?qd) (PostsToAnalyze ?qd) = Inr []"
    by (simp add: env_silence_def env0_def qd0_def)
  show ?thesis
    using C5_first_interval_no_posts[OF entry_silence count_silence_empty q loggedIn_silence sp]
      entry_silence q loggedIn_silence sp
    by (simp add: count_silence_empty tableAfter_def)
qed


section \<open>Isolation of the subtopic analyses\<close>

lemma analyze_search_rejected:
  "searchPosts e trm limit = Inl err \<Longrightarrow>
     analyzeSentimentForTerm e trm limit q = ((None, []), [SearchPosts trm limit])"
  by (simp add: analyzeSentimentForTerm_def)

lemma written_analyzeSubtopic:
  "concat (map written (analyzeSubtopic e q qd s)) = subtopicRecord e q qd s"
  by (simp add: analyzeSubtopic_unfold subtopicRecord_def Let_def written_analyze split: option.splits)

lemma written_subtopics:
  "concat (map written (concat (map (analyzeSubtopic e q qd) subs)))
     = concat (map (subtopicRecord e q qd) subs)"
  by (induction subs) (simp_all add: written_analyzeSubtopic)

lemma runInterval_result:
  "fst (runInterval e q qd n) =
     (if \<not> truthy (BLUESKY_HANDLE e) \<or> \<not> truthy (BLUESKY_APP_PASSWORD e)
      then Inl MissingBlueskyCredentials
      else if \<not> succeeded (login e) then Inl BlueskyAuthenticationFailed
      else
        let stored = fst (mainTopicPhase e q qd n);
            after = int n + (if stored then 1 else 0)
        in if NumIntervals qd \<le> after \<and> Email qd \<noteq> [] \<and> \<not> succeeded (PublishCommand e qd)
           then Inl PublishRejected
           else Inr (stored, after))"
  by (simp add: runInterval_unfold finalizeQuery_unfold Let_def)

text \<open>
  Claim C8.  In every subsequent-interval invocation the subtopics are analysed one by
  one, each inside its own \<^verbatim>\<open>try\<close>: the records written by the subtopic step are, in
  order, the records of the single subtopics, each decided by that subtopic's own search,
  scoring and put alone; a subtopic whose search is rejected, or whose put is rejected,
  contributes no record and changes nothing for the others; and the result of the
  invocation is decided without reference to the subtopic analyses.
\<close>

theorem C8_subtopic_isolation:
  assumes "0 < n"
  shows "subtopicPhase e q qd n
           = snd (getSubtopics e q) @ concat (map (analyzeSubtopic e q qd) (fst (getSubtopics e q)))
       \<and> concat (map written (subtopicPhase e q qd n))
           = concat (map (subtopicRecord e q qd) (fst (getSubtopics e q)))
       \<and> (\<forall>s \<in> set (fst (getSubtopics e q)). \<forall>summary.
             fst (fst (analyzeSentimentForTerm e s (PostsToAnalyze qd) q)) = Some summary
             \<and> succeeded (PutCommand_Data e (subtopicItem summary s (Topic qd)))
             \<longrightarrow> PutData (subtopicItem summary s (Topic qd)) True \<in> set (subtopicPhase e q qd n))
       \<and> (\<forall>s err. searchPosts e s (PostsToAnalyze qd) = Inl err
             \<longrightarrow> analyzeSubtopic e q qd s = [SearchPosts s (PostsToAnalyze qd)]
                 \<and> subtopicRecord e q qd s = [])
       \<and> (\<forall>s summary. fst (fst (analyzeSentimentForTerm e s (PostsToAnalyze qd) q)) = Some summary
             \<and> \<not> succeeded (PutCommand_Data e (subtopicItem summary s (Topic qd)))
             \<longrightarrow> subtopicRecord e q qd s = [])
       \<and> fst (runInterval e q qd n) =
           (if \<not> truthy (BLUESKY_HANDLE e) \<or> \<not> truthy (BLUESKY_APP_PASSWORD e)
            then Inl MissingBlueskyCredentials
            else if \<not> succeeded (login e) then Inl BlueskyAuthenticationFailed
            else
              let stored = fst (mainTopicPhase e q qd n);
                  after = int n + (if stored then 1 else 0)
              in if NumIntervals qd \<le> after \<and> Email qd \<noteq> [] \<and> \<not> succeeded (PublishCommand e qd)
                 then Inl PublishRejected
                 else Inr (stored, after))"
proof (intro conjI ballI allI impI)
  show a: "subtopicPhase e q qd n
           = snd (getSubtopics e q) @ concat (map (analyzeSubtopic e q qd) (fst (getSubtopics e q)))"
    using assms by (simp add: subtopicPhase_unfold)
  show "concat (map written (subtopicPhase e q qd n))
           = concat (map (subtopicRecord e q qd) (fst (getSubtopics e q)))"
    using assms by (simp add: subtopicPhase_unfold written_getSubtopics written_subtopics)
  show "fst (runInterval e q qd n) =
           (if \<not> truthy (BLUESKY_HANDLE e) \<or> \<not> truthy (BLUESKY_APP_PASSWORD e)
            then Inl MissingBlueskyCredentials
            else if \<not> succeeded (login e) then Inl BlueskyAuthenticationFailed
            else
              let stored = fst (mainTopicPhase e q qd n);
                  after = int n + (if stored then 1 else 0)
              in if NumIntervals qd \<le> after \<and> Email qd \<noteq> [] \<and> \<not> succeeded (PublishCommand e qd)
                 then Inl PublishRejected
                 else Inr (stored, after))"
    by (rule runInterval_result)
  {
    fix s summary
    assume s: "s \<in> set (fst (getSubtopics e q))"
      and ok: "fst (fst (analyzeSentimentForTerm e s (PostsToAnalyze qd) q)) = Some summary
               \<and> succeeded (PutCommand_Data e (subtopicItem summary s (Topic qd)))"
    then have "PutData (subtopicItem summary s (Topic qd)) True \<in> set (analyzeSubtopic e q qd s)"
      by (simp add: analyzeSubtopic_unfold Let_def)
    with s show "PutData (subtopicItem summary s (Topic qd)) True \<in> set (subtopicPhase e q qd n)"
      unfolding a by auto
  }
  {
    fix s err
    assume r: "searchPosts e s (PostsToAnalyze qd) = Inl err"
    show "analyzeSubtopic e q qd s = [SearchPosts s (PostsToAnalyze qd)]"
      by (simp add: analyzeSubtopic_unfold analyze_search_rejected[OF r])
    show "subtopicRecord e q qd s = []"
      by (simp add: subtopicRecord_def analyze_search_rejected[OF r])
  }
  {
    fix s summary
    assume "fst (fst (analyzeSentimentForTerm e s (PostsToAnalyze qd) q)) = Some summary
             \<and> \<not> succeeded (PutCommand_Data e (subtopicItem summary s (Topic qd)))"
    then show "subtopicRecord e q qd s = []"
      by (simp add: subtopicRecord_def)
  }
qed

lemma subtopics_env0: "fst (getSubtopics env0 7) = [(str ''bad''), (str ''sax solo''), (str ''the club'')]"
  by (simp add: getSubtopics_env0)

lemma analyze_sax:
  "fst (fst (analyzeSentimentForTerm env0 (str ''sax solo'') 5 7)) = Some summary_sax"
proof -
  have s: "searchPosts env0 (str ''sax solo'') 5 = Inr [\<lparr>uri = (str ''u5''), record_text = Some [97]\<rparr>]"
    by (simp add: env0_def)
  have t: "textToAnalyze [97] = [97]" by (rule textToAnalyze_short) simp_all
  have d: "scoredData env0 [\<lparr>uri = (str ''u5''), record_text = Some [97]\<rparr>] = [sd (str ''POSITIVE'') (3 / 4)]"
    by (simp add: scoredData_def List.map_filter_def successfullyScored_def t is_js_space_def)
       (simp add: env0_def sd_def truthy_def)
  show ?thesis
    unfolding analyze_summary[OF s] summarize_scored d
    by (simp add: labelled_def mean_def confidence_def sd_def summary_sax_def round_env0)
qed

theorem C8_subtopic_isolation_witness:
  "(0::nat) < 1
   \<and> (str ''bad'') \<in> set (fst (getSubtopics env0 7))
   \<and> searchPosts env0 (str ''bad'') (PostsToAnalyze qd0) = Inl (str ''boom'')
   \<and> analyzeSubtopic env0 7 qd0 (str ''bad'') = [SearchPosts (str ''bad'') (PostsToAnalyze qd0)]
   \<and> subtopicRecord env0 7 qd0 (str ''bad'') = []
   \<and> (str ''sax solo'') \<in> set (fst (getSubtopics env0 7))
   \<and> fst (fst (analyzeSentimentForTerm env0 (str ''sax solo'') (PostsToAnalyze qd0) 7)) = Some summary_sax
   \<and> succeeded (PutCommand_Data env0 (subtopicItem summary_sax (str ''sax solo'') (Topic qd0)))
   \<and> PutData (subtopicItem summary_sax (str ''sax solo'') (Topic qd0)) True \<in> set (subtopicPhase env0 7 qd0 1)"
proof -
  have p: "PostsToAnalyze qd0 = 5" by (simp add: qd0_def)
  have b: "searchPosts env0 (str ''bad'') (PostsToAnalyze qd0) = Inl (str ''boom'')"
    by (simp add: env0_def p)
  have a: "fst (fst (analyzeSentimentForTerm env0 (str ''sax solo'') (PostsToAnalyze qd0) 7)) = Some summary_sax"
    by (simp add: p analyze_sax)
  have u: "succeeded (PutCommand_Data env0 (subtopicItem summary_sax (str ''sax solo'') (Topic qd0)))"
    by (simp add: env0_def succeeded_def)
  have m: "(str ''bad'') \<in> set (fst (getSubtopics env0 7))" "(str ''sax solo'') \<in> set (fst (getSubtopics env0 7))"
    by (simp_all add: subtopics_env0)
  have z: "(0::nat) < 1" by simp
  show ?thesis
    using C8_subtopic_isolation[OF z, of env0 7 qd0] b a u m by blast
qed


section \<open>The byte truncation\<close>

lemma Buffer_from_Nil: "Buffer_from [] = []"
  by (simp add: Buffer_from_def)

lemma Buffer_from_Cons: "Buffer_from (c # s) = utf8_encode_cp c @ Buffer_from s"
  by (simp add: Buffer_from_def)

lemma Buffer_from_append: "Buffer_from (s @ t) = Buffer_from s @ Buffer_from t"
  by (simp add: Buffer_from_def)

text \<open>The decoder on one well-formed sequence and on its proper prefixes.\<close>

lemma decode_2:
  assumes "2 \<le> a" "a \<le> 31" "d < 64"
  shows "toString_utf8 ((0xC0 + a) # (0x80 + d) # bs) = (a * 64 + d) # toString_utf8 bs"
  using assms by (simp add: is_cont_def)


lemma decode_3:
  assumes "a \<le> 15" "b < 64" "d < 64" "a = 0 \<longrightarrow> 32 \<le> b" "a = 13 \<longrightarrow> b < 32"
  shows "toString_utf8 ((0xE0 + a) # (0x80 + b) # (0x80 + d) # bs)
           = (a * 4096 + b * 64 + d) # toString_utf8 bs"
proof -
  have s: "second_ok (0xE0 + a) (0x80 + b)"
    using assms by (auto simp: second_ok_def)
  have c: "is_cont (0x80 + d)" using assms by (simp add: is_cont_def)
  have r: "\<not> (0xE0 + a < 0x80)" "\<not> (0xC2 \<le> 0xE0 + a \<and> 0xE0 + a \<le> 0xDF)" "0xE0 \<le> 0xE0 + a \<and> 0xE0 + a \<le> 0xEF"
    using assms by simp_all
  show ?thesis
    by (simp only: toString_utf8.simps r s c if_True if_False list.case)
       simp
qed

lemma decode_4:
  assumes "a \<le> 4" "b < 64" "b' < 64" "d < 64" "a = 0 \<longrightarrow> 16 \<le> b" "a = 4 \<longrightarrow> b < 16"
  shows "toString_utf8 ((0xF0 + a) # (0x80 + b) # (0x80 + b') # (0x80 + d) # bs)
           = (a * 262144 + b * 4096 + b' * 64 + d) # toString_utf8 bs"
proof -
  have s: "second_ok (0xF0 + a) (0x80 + b)"
    using assms by (auto simp: second_ok_def)
  have c: "is_cont (0x80 + d)" "is_cont (0x80 + b')" using assms by (simp_all add: is_cont_def)
  have r: "\<not> (0xF0 + a < 0x80)" "\<not> (0xC2 \<le> 0xF0 + a \<and> 0xF0 + a \<le> 0xDF)"
    "\<not> (0xE0 \<le> 0xF0 + a \<and> 0xF0 + a \<le> 0xEF)" "0xF0 \<le> 0xF0 + a \<and> 0xF0 + a \<le> 0xF4"
    using assms by simp_all
  show ?thesis
    by (simp only: toString_utf8.simps r s c if_True if_False list.case)
       simp
qed

lemma decode_lead_2: "2 \<le> a \<Longrightarrow> a \<le> 31 \<Longrightarrow> toString_utf8 [0xC0 + a] = [0xFFFD]"
  by simp

lemma decode_lead_3: "a \<le> 15 \<Longrightarrow> toString_utf8 [0xE0 + a] = [0xFFFD]"
  by simp

lemma decode_lead_3_2:
  assumes "a \<le> 15" "b < 64" "a = 0 \<longrightarrow> 32 \<le> b" "a = 13 \<longrightarrow> b < 32"
  shows "toString_utf8 [0xE0 + a, 0x80 + b] = [0xFFFD]"
proof -
  have s: "second_ok (0xE0 + a) (0x80 + b)"
    using assms by (auto simp: second_ok_def)
  have r: "\<not> (0xE0 + a < 0x80)" "\<not> (0xC2 \<le> 0xE0 + a \<and> 0xE0 + a \<le> 0xDF)" "0xE0 \<le> 0xE0 + a \<and> 0xE0 + a \<le> 0xEF"
    using assms by simp_all
  show ?thesis
    by (simp only: toString_utf8.simps r s if_True if_False list.case)
       simp
qed

lemma decode_lead_4:
  assumes "a \<le> 4"
  shows "toString_utf8 [0xF0 + a] = [0xFFFD]"
proof -
  have r: "\<not> (0xF0 + a < 0x80)" "\<not> (0xC2 \<le> 0xF0 + a \<and> 0xF0 + a \<le> 0xDF)"
    "\<not> (0xE0 \<le> 0xF0 + a \<and> 0xF0 + a \<le> 0xEF)" "0xF0 \<le> 0xF0 + a \<and> 0xF0 + a \<le> 0xF4"
    using assms by simp_all
  show ?thesis
    by (simp only: toString_utf8.simps r if_True if_False list.case)
       simp
qed

lemma decode_lead_4_2:
  assumes "a \<le> 4" "b < 64" "a = 0 \<longrightarrow> 16 \<le> b" "a = 4 \<longrightarrow> b < 16"
  shows "toString_utf8 [0xF0 + a, 0x80 + b] = [0xFFFD]"
proof -
  have s: "second_ok (0xF0 + a) (0x80 + b)"
    using assms by (auto simp: second_ok_def)
  have r: "\<not> (0xF0 + a < 0x80)" "\<not> (0xC2 \<le> 0xF0 + a \<and> 0xF0 + a \<le> 0xDF)"
    "\<not> (0xE0 \<le> 0xF0 + a \<and> 0xF0 + a \<le> 0xEF)" "0xF0 \<le> 0xF0 + a \<and> 0xF0 + a \<le> 0xF4"
    using assms by simp_all
  show ?thesis
    by (simp only: toString_utf8.simps r s if_True if_False list.case)
       simp
qed

lemma decode_lead_4_3:
  assumes "a \<le> 4" "b < 64" "b' < 64" "a = 0 \<longrightarrow> 16 \<le> b" "a = 4 \<longrightarrow> b < 16"
  shows "toString_utf8 [0xF0 + a, 0x80 + b, 0x80 + b'] = [0xFFFD]"
proof -
  have s: "second_ok (0xF0 + a) (0x80 + b)"
    using assms by (auto simp: second_ok_def)
  have c: "is_cont (0x80 + b')" using assms by (simp add: is_cont_def)
  have r: "\<not> (0xF0 + a < 0x80)" "\<not> (0xC2 \<le> 0xF0 + a \<and> 0xF0 + a \<le> 0xDF)"
    "\<not> (0xE0 \<le> 0xF0 + a \<and> 0xF0 + a \<le> 0xEF)" "0xF0 \<le> 0xF0 + a \<and> 0xF0 + a \<le> 0xF4"
    using assms by simp_all
  show ?thesis
    by (simp only: toString_utf8.simps r s c if_True if_False list.case)
       simp
qed

text \<open>The four shapes of the encoding of a code point.\<close>

lemma split_64:
  obtains x r where "(c::nat) = 64 * x + r" "r < 64" "c div 64 = x" "c mod 64 = r"
proof
  show "c = 64 * (c div 64) + c mod 64" by simp
  show "c mod 64 < 64" by simp
qed simp_all

lemma div_4096: "(c::nat) div 4096 = c div 64 div 64"
proof -
  have "c div 4096 = c div (64 * 64)" by simp
  then show ?thesis by (simp only: div_mult2_eq)
qed

lemma div_262144: "(c::nat) div 262144 = c div 64 div 64 div 64"
proof -
  have "c div 262144 = c div (64 * 64 * 64)" by simp
  then show ?thesis by (simp only: div_mult2_eq)
qed

lemma encode_cases:
  obtains (one) "c < 0x80" "utf8_encode_cp c = [c]" "scalar_of c = c"
  | (two) a d where "2 \<le> a" "a \<le> 31" "d < 64"
      "utf8_encode_cp c = [0xC0 + a, 0x80 + d]" "scalar_of c = a * 64 + d"
  | (three) a b d where "a \<le> 15" "b < 64" "d < 64" "a = 0 \<longrightarrow> 32 \<le> b" "a = 13 \<longrightarrow> b < 32"
      "utf8_encode_cp c = [0xE0 + a, 0x80 + b, 0x80 + d]" "scalar_of c = a * 4096 + b * 64 + d"
  | (four) a b b' d where "a \<le> 4" "b < 64" "b' < 64" "d < 64" "a = 0 \<longrightarrow> 16 \<le> b" "a = 4 \<longrightarrow> b < 16"
      "utf8_encode_cp c = [0xF0 + a, 0x80 + b, 0x80 + b', 0x80 + d]"
      "scalar_of c = a * 262144 + b * 4096 + b' * 64 + d"
proof -
  obtain x r0 where x: "c = 64 * x + r0" "r0 < 64" "c div 64 = x" "c mod 64 = r0"
    by (rule split_64)
  obtain y r1 where y: "x = 64 * y + r1" "r1 < 64" "x div 64 = y" "x mod 64 = r1"
    by (rule split_64)
  obtain z r2 where z: "y = 64 * z + r2" "r2 < 64" "y div 64 = z" "y mod 64 = r2"
    by (rule split_64)
  have d: "c div 4096 = y" "c div 262144 = z" "(c div 4096) mod 64 = r2" "(c div 64) mod 64 = r1"
    by (simp_all only: div_4096 div_262144 x(3) y(3,4) z(3,4))
  consider (c1) "c < 0x80" | (c2) "0x80 \<le> c" "c < 0x800"
    | (bad) "(0xD800 \<le> c \<and> c \<le> 0xDFFF) \<or> 0x10FFFF < c"
    | (c3) "0x800 \<le> c" "c < 0x10000" "\<not> (0xD800 \<le> c \<and> c \<le> 0xDFFF)"
    | (c4) "0x10000 \<le> c" "c \<le> 0x10FFFF"
    by linarith
  then show ?thesis
  proof cases
    case c1
    then have "utf8_encode_cp c = [c]" "scalar_of c = c"
      by (simp_all add: utf8_encode_cp_def scalar_of_def is_scalar_def)
    with c1 show ?thesis by (rule one)
  next
    case c2
    then have e: "utf8_encode_cp c = [0xC0 + x, 0x80 + r0]"
      by (simp add: utf8_encode_cp_def x(3,4))
    have s: "scalar_of c = x * 64 + r0" using c2 x(1) by (simp add: scalar_of_def is_scalar_def)
    have r: "2 \<le> x" "x \<le> 31" using c2 x(1,2) by linarith+
    show ?thesis using r x(2) e s by (rule two)
  next
    case bad
    then have e: "utf8_encode_cp c = [0xE0 + 15, 0x80 + 63, 0x80 + 61]"
      by (auto simp: utf8_encode_cp_def)
    have s: "scalar_of c = 15 * 4096 + 63 * 64 + 61" using bad by (auto simp: scalar_of_def is_scalar_def)
    show ?thesis by (rule three[OF _ _ _ _ _ e s]) simp_all
  next
    case c3
    then have "utf8_encode_cp c = [0xE0 + c div 4096, 0x80 + (c div 64) mod 64, 0x80 + c mod 64]"
      by (auto simp add: utf8_encode_cp_def)
    then have e: "utf8_encode_cp c = [0xE0 + y, 0x80 + r1, 0x80 + r0]"
      by (simp only: d x(4) z(4))
    have c: "c = y * 4096 + r1 * 64 + r0" using x(1) y(1) by simp
    have s: "scalar_of c = y * 4096 + r1 * 64 + r0"
      using c3 c by (auto simp: scalar_of_def is_scalar_def)
    have r: "y \<le> 15" "y = 0 \<longrightarrow> 32 \<le> r1" "y = 13 \<longrightarrow> r1 < 32"
      using c3 c x(2) y(2) by linarith+
    show ?thesis using r(1) y(2) x(2) r(2,3) e s by (rule three)
  next
    case c4
    then have "utf8_encode_cp c = [0xF0 + c div 262144, 0x80 + (c div 4096) mod 64,
                    0x80 + (c div 64) mod 64, 0x80 + c mod 64]"
      by (simp add: utf8_encode_cp_def)
    then have e: "utf8_encode_cp c = [0xF0 + z, 0x80 + r2, 0x80 + r1, 0x80 + r0]"
      by (simp only: d x(4) z(4))
    have c: "c = z * 262144 + r2 * 4096 + r1 * 64 + r0" using x(1) y(1) z(1) by simp
    have s: "scalar_of c = z * 262144 + r2 * 4096 + r1 * 64 + r0"
      using c4 c by (auto simp: scalar_of_def is_scalar_def)
    have r: "z \<le> 4" "z = 0 \<longrightarrow> 16 \<le> r2" "z = 4 \<longrightarrow> r2 < 16"
      using c4 c x(2) y(2) z(2) by linarith+
    show ?thesis using r(1) z(2) y(2) x(2) r(2,3) e s by (rule four)
  qed
qed

lemma decode_encode:
  "toString_utf8 (utf8_encode_cp c @ bs) = scalar_of c # toString_utf8 bs"
proof (cases c rule: encode_cases)
  case one
  then show ?thesis by simp
next
  case (two a d)
  then show ?thesis using decode_2[of a d bs] by simp
next
  case (three a b d)
  then show ?thesis using decode_3[of a b d bs] by simp
next
  case (four a b b' d)
  then show ?thesis using decode_4[of a b b' d bs] by simp
qed

lemma decode_prefix:
  assumes "0 < k" "k < length (utf8_encode_cp c)"
  shows "toString_utf8 (take k (utf8_encode_cp c)) = [0xFFFD]"
proof (cases c rule: encode_cases)
  case one
  then show ?thesis using assms by simp
next
  case (two a d)
  then have "k = 1" using assms by simp
  then show ?thesis using two decode_lead_2[of a] by simp
next
  case (three a b d)
  then have "k = 1 \<or> k = 2" using assms by auto
  then show ?thesis
    using three decode_lead_3[of a] decode_lead_3_2[of a b] by auto
next
  case (four a b b' d)
  then have "k = 1 \<or> k = 2 \<or> k = 3" using assms by auto
  then show ?thesis
    using four decode_lead_4[of a] decode_lead_4_2[of a b] decode_lead_4_3[of a b b']
    by (auto simp: numeral_3_eq_3 numeral_2_eq_2)
qed


lemma encode_length_pos: "0 < length (utf8_encode_cp c)"
  by (simp add: utf8_encode_cp_def)

lemma encode_length_le: "length (utf8_encode_cp c) \<le> 4"
  by (simp add: utf8_encode_cp_def)

lemma encode_scalar_of_length: "length (utf8_encode_cp (scalar_of c)) = length (utf8_encode_cp c)"
  by (simp add: utf8_encode_cp_def scalar_of_def is_scalar_def)

lemma scalar_of_scalar: "is_scalar (scalar_of c)"
  by (simp add: scalar_of_def is_scalar_def)

lemma scalar_of_id: "is_scalar c \<Longrightarrow> scalar_of c = c"
  by (simp add: scalar_of_def)

text \<open>Decoding the first \<open>n\<close> bytes of an encoded text.\<close>

lemma toString_take: "toString_utf8 (take n (Buffer_from s)) = cut n s"
proof (induction s arbitrary: n)
  case Nil
  show ?case by (simp add: Buffer_from_Nil)
next
  case (Cons c s)
  let ?l = "length (utf8_encode_cp c)"
  show ?case
  proof (cases "?l \<le> n")
    case True
    then have "take n (Buffer_from (c # s)) = utf8_encode_cp c @ take (n - ?l) (Buffer_from s)"
      by (simp add: Buffer_from_Cons)
    then show ?thesis using True by (simp add: decode_encode Cons.IH)
  next
    case False
    then have t: "take n (Buffer_from (c # s)) = take n (utf8_encode_cp c)"
      by (simp add: Buffer_from_Cons)
    show ?thesis
    proof (cases "n = 0")
      case True
      then show ?thesis using False by simp
    next
      case n: False
      then have "toString_utf8 (take n (utf8_encode_cp c)) = [0xFFFD]"
        using False by (intro decode_prefix) simp_all
      then show ?thesis using False n t by simp
    qed
  qed
qed

lemma toString_Buffer: "toString_utf8 (Buffer_from s) = map scalar_of s"
proof (induction s)
  case Nil
  show ?case by (simp add: Buffer_from_Nil)
next
  case (Cons c s)
  then show ?case by (simp add: Buffer_from_Cons decode_encode)
qed

lemma cut_scalar: "list_all is_scalar (cut n s)"
proof (induction s arbitrary: n)
  case Nil
  show ?case by simp
next
  case (Cons c s)
  have r: "is_scalar 0xFFFD" by (simp add: is_scalar_def)
  show ?case using Cons.IH r by (simp add: scalar_of_scalar)
qed

lemma cut_bytes: "length (Buffer_from (cut n s)) \<le> n + 2"
proof (induction s arbitrary: n)
  case Nil
  show ?case by (simp add: Buffer_from_Nil)
next
  case (Cons c s)
  let ?l = "length (utf8_encode_cp c)"
  show ?case
  proof (cases "?l \<le> n")
    case True
    have "length (Buffer_from (cut (n - ?l) s)) \<le> (n - ?l) + 2" by (rule Cons.IH)
    then show ?thesis using True
      by (simp add: Buffer_from_Cons encode_scalar_of_length)
  next
    case False
    then show ?thesis
      by (simp add: Buffer_from_Cons Buffer_from_Nil utf8_encode_cp_def)
  qed
qed

lemma scalar_roundtrip: "list_all is_scalar s \<Longrightarrow> toString_utf8 (Buffer_from s) = s"
  by (simp add: toString_Buffer list_all_iff scalar_of_id map_idI)

lemma textToAnalyze_bytes: "byteLength (textToAnalyze postText) \<le> MAX_COMPREHEND_BYTES + 2"
  using cut_bytes[of MAX_COMPREHEND_BYTES postText]
  by (simp add: textToAnalyze_def byteLength_def toString_take)

lemma textToAnalyze_bytes_Suc: "byteLength (textToAnalyze postText) \<le> Suc (Suc MAX_COMPREHEND_BYTES)"
  using textToAnalyze_bytes[of postText] by simp

text \<open>The texts passed to the scorer and to the key-phrase extractor in a trace.\<close>

lemma within_scorePost:
  "c \<in> set (snd (scorePost e p)) \<Longrightarrow> textWithin (Suc (Suc MAX_COMPREHEND_BYTES)) c"
  by (auto simp: scorePost_def Let_def textToAnalyze_bytes_Suc split: option.splits if_splits)

lemma within_keyPhrasePost:
  "c \<in> set (snd (keyPhrasePost e p)) \<Longrightarrow> textWithin (Suc (Suc MAX_COMPREHEND_BYTES)) c"
  by (auto simp: keyPhrasePost_def Let_def textToAnalyze_bytes_Suc split: option.splits if_splits)

lemma within_analyze:
  "c \<in> set (snd (analyzeSentimentForTerm e trm limit q)) \<Longrightarrow> textWithin (Suc (Suc MAX_COMPREHEND_BYTES)) c"
  by (auto simp: analyzeSentimentForTerm_def Let_def split: sum.splits if_splits
        dest: within_scorePost)

lemma within_firstRunActions:
  "c \<in> set (firstRunActions e q qd posts) \<Longrightarrow> textWithin (Suc (Suc MAX_COMPREHEND_BYTES)) c"
  by (auto simp: firstRunActions_def Let_def split: sum.splits if_splits
        dest: within_keyPhrasePost triggerAddSubtopicLambda_calls)

lemma within_mainTopicPhase:
  "c \<in> set (snd (mainTopicPhase e q qd n)) \<Longrightarrow> textWithin (Suc (Suc MAX_COMPREHEND_BYTES)) c"
  by (auto simp: mainTopicPhase_unfold Let_def split: option.splits if_splits
        dest: within_analyze within_firstRunActions)

lemma within_subtopicPhase:
  "c \<in> set (subtopicPhase e q qd n) \<Longrightarrow> textWithin (Suc (Suc MAX_COMPREHEND_BYTES)) c"
  by (auto simp: subtopicPhase_unfold analyzeSubtopic_unfold Let_def split: option.splits if_splits
        dest: within_analyze getSubtopics_calls)

lemma within_handler:
  "c \<in> set (snd (handler e tbl event)) \<Longrightarrow> textWithin (Suc (Suc MAX_COMPREHEND_BYTES)) c"
proof (cases "entry e tbl event")
  case None
  assume "c \<in> set (snd (handler e tbl event))"
  with handler_no_entry[OF None] have "isLookup c \<or> isDelete c \<or> (\<exists>q. c = ScanData q)"
    by blast
  then show ?thesis by (cases c) auto
next
  case (Some x)
  assume c: "c \<in> set (snd (handler e tbl event))"
  obtain q qd c1 where en: "entry e tbl event = Some (q, qd, c1)" using Some by (cases x) auto
  have l: "\<And>c. c \<in> set c1 \<Longrightarrow> textWithin (Suc (Suc MAX_COMPREHEND_BYTES)) c"
    subgoal for c using entry_lookup[OF en] by (cases c) auto
    done
  from c show ?thesis
    by (auto simp: handler_entry[OF en] runInterval_unfold finalizeQuery_unfold Let_def
          split: if_splits sum.splits
          dest: l within_mainTopicPhase within_subtopicPhase)
qed


lemma Buffer_from_letters: "Buffer_from (replicate k 97) = replicate k 97"
  by (induction k) (simp_all add: Buffer_from_Nil Buffer_from_Cons utf8_encode_cp_def)

lemma cut_letters: "k \<le> n \<Longrightarrow> cut n (replicate k 97 @ s) = replicate k 97 @ cut (n - k) s"
proof (induction k arbitrary: n)
  case 0
  show ?case by simp
next
  case (Suc k)
  have e: "utf8_encode_cp 97 = [97]" "scalar_of 97 = 97"
    by (simp_all add: utf8_encode_cp_def scalar_of_def is_scalar_def)
  from Suc.prems have "k \<le> n - 1" by simp
  from Suc.IH[OF this] Suc.prems show ?case by (simp add: e)
qed

lemma encode_e_acute: "utf8_encode_cp 0xE9 = [0xC3, 0xA9]"
  by (simp add: utf8_encode_cp_def)

lemma bytes_4991: "Buffer_from text_4991 = replicate 4989 97 @ [0xC3, 0xA9]"
  by (simp add: text_4991_def Buffer_from_append Buffer_from_letters Buffer_from_Cons
        Buffer_from_Nil encode_e_acute)

lemma cut_4991: "cut 4990 text_4991 = replicate 4989 97 @ [0xFFFD]"
proof -
  have "cut 4990 (replicate 4989 97 @ [0xE9]) = replicate 4989 97 @ cut (4990 - 4989) [0xE9]"
    by (rule cut_letters) simp
  then show ?thesis by (simp add: text_4991_def encode_e_acute)
qed

text \<open>
  Claim C9, as stated, fails.  A text of 4989 ASCII letters followed by U+00E9 has 4991
  bytes; the first 4990 bytes end with the lead byte of U+00E9 alone, which is decoded to
  U+FFFD, and the text passed on re-encodes to 4992 bytes.
\<close>

theorem C9_counterexample:
  "byteLength text_4991 = 4991
   \<and> MAX_COMPREHEND_BYTES < byteLength text_4991
   \<and> take MAX_COMPREHEND_BYTES (Buffer_from text_4991) = replicate 4989 97 @ [0xC3]
   \<and> textToAnalyze text_4991 = replicate 4989 97 @ [0xFFFD]
   \<and> byteLength (textToAnalyze text_4991) = 4992
   \<and> MAX_COMPREHEND_BYTES < byteLength (textToAnalyze text_4991)"
proof -
  have b: "byteLength text_4991 = 4991"
    by (simp add: byteLength_def bytes_4991)
  have t: "textToAnalyze text_4991 = replicate 4989 97 @ [0xFFFD]"
    using b by (simp add: textToAnalyze_def MAX_COMPREHEND_BYTES_def toString_take cut_4991)
  have r: "byteLength (replicate 4989 97 @ [0xFFFD]) = 4992"
    by (simp add: byteLength_def Buffer_from_append Buffer_from_letters Buffer_from_Cons
          Buffer_from_Nil utf8_encode_cp_def)
  have k: "take MAX_COMPREHEND_BYTES (Buffer_from text_4991) = replicate 4989 97 @ [0xC3]"
    by (simp add: bytes_4991 MAX_COMPREHEND_BYTES_def)
  show ?thesis using b t r k by (simp add: MAX_COMPREHEND_BYTES_def)
qed

text \<open>
  Claim C9, amended.  For every post text whose UTF-8 byte length exceeds 4990 bytes,
  the truncated text passed to sentiment scoring (and to key-phrase extraction) consists
  of the code points whose encodings fit into the first 4990 bytes, followed by one
  U+FFFD when the byte cut falls inside a multi-byte code point; it is valid UTF-8 (a
  text of scalar values, which decodes from its own encoding unchanged) and re-encodes to
  at most 4992 bytes.  Every text that an invocation passes to the scorer or to the
  key-phrase extractor has at most 4992 bytes.
\<close>

theorem C9_truncation:
  "(MAX_COMPREHEND_BYTES < byteLength postText \<longrightarrow>
      textToAnalyze postText = cut MAX_COMPREHEND_BYTES postText
      \<and> byteLength (textToAnalyze postText) \<le> MAX_COMPREHEND_BYTES + 2
      \<and> list_all is_scalar (textToAnalyze postText)
      \<and> toString_utf8 (Buffer_from (textToAnalyze postText)) = textToAnalyze postText)
   \<and> (\<forall>c \<in> set (snd (handler e tbl event)). textWithin (MAX_COMPREHEND_BYTES + 2) c)"
proof (intro conjI impI ballI)
  assume a: "MAX_COMPREHEND_BYTES < byteLength postText"
  then show t: "textToAnalyze postText = cut MAX_COMPREHEND_BYTES postText"
    by (simp add: textToAnalyze_def toString_take)
  show "byteLength (textToAnalyze postText) \<le> MAX_COMPREHEND_BYTES + 2"
    by (rule textToAnalyze_bytes)
  show s: "list_all is_scalar (textToAnalyze postText)"
    unfolding t by (rule cut_scalar)
  show "toString_utf8 (Buffer_from (textToAnalyze postText)) = textToAnalyze postText"
    using s by (rule scalar_roundtrip)
next
  fix c assume "c \<in> set (snd (handler e tbl event))"
  then have "textWithin (Suc (Suc MAX_COMPREHEND_BYTES)) c" by (rule within_handler)
  then show "textWithin (MAX_COMPREHEND_BYTES + 2) c" by simp
qed

theorem C9_truncation_witness:
  "MAX_COMPREHEND_BYTES < byteLength text_4991
   \<and> textToAnalyze text_4991 = replicate 4989 97 @ [0xFFFD]
   \<and> byteLength (textToAnalyze text_4991) \<le> MAX_COMPREHEND_BYTES + 2
   \<and> list_all is_scalar (textToAnalyze text_4991)"
proof -
  have b: "MAX_COMPREHEND_BYTES < byteLength text_4991"
    by (simp add: byteLength_def bytes_4991 MAX_COMPREHEND_BYTES_def)
  from C9_truncation[of text_4991 env0 "[]" ev7] b
  have t: "textToAnalyze text_4991 = cut MAX_COMPREHEND_BYTES text_4991"
    and l: "byteLength (textToAnalyze text_4991) \<le> MAX_COMPREHEND_BYTES + 2"
    and v: "list_all is_scalar (textToAnalyze text_4991)"
    by blast+
  from t have "textToAnalyze text_4991 = replicate 4989 97 @ [0xFFFD]"
    by (simp add: MAX_COMPREHEND_BYTES_def cut_4991)
  with b l v show ?thesis by blast
qed

section \<open>The run count\<close>























section \<open>The stored statistics\<close>

lemma no_put_analyze: "filter isPut (snd (analyzeSentimentForTerm e trm limit q)) = []"
proof -
  have "\<And>c. c \<in> set (snd (analyzeSentimentForTerm e trm limit q)) \<Longrightarrow> \<not> isPut c"
    subgoal for c using analyze_calls[of c e trm limit q] by auto
    done
  then show ?thesis by (auto simp: filter_empty_conv)
qed

lemma no_put_firstRun: "filter isPut (firstRunActions e q qd posts) = []"
proof -
  have "\<And>c. c \<in> set (firstRunActions e q qd posts) \<Longrightarrow> \<not> isPut c"
    subgoal for c using firstRunActions_calls[of c e q qd posts] by auto
    done
  then show ?thesis by (auto simp: filter_empty_conv)
qed

lemma analyze_rejected:
  "searchPosts e trm limit = Inl msg \<Longrightarrow>
     analyzeSentimentForTerm e trm limit q = ((None, []), [SearchPosts trm limit])"
  by (simp add: analyzeSentimentForTerm_def)

lemma main_record:
  "mainItem \<lparr>summary_queryId = q, summary_topic = topic,
             totalPostsAnalyzed = length ds,
             positivePosts = labelled (str ''POSITIVE'') ds,
             negativePosts = labelled (str ''NEGATIVE'') ds,
             neutralPosts = labelled (str ''NEUTRAL'') ds,
             mixedPosts = labelled (str ''MIXED'') ds,
             avgPositiveScore = mean rnd (map (confidence Positive) ds),
             avgNegativeScore = mean rnd (map (confidence Negative) ds),
             avgNeutralScore = mean rnd (map (confidence Neutral) ds),
             avgMixedScore = mean rnd (map (confidence Mixed) ds)\<rparr>
     = resultRecord rnd q topic None False ds"
  by (simp add: mainItem_def resultRecord_def)

lemma subtopic_record:
  "subtopicItem \<lparr>summary_queryId = q, summary_topic = topic,
             totalPostsAnalyzed = length ds,
             positivePosts = labelled (str ''POSITIVE'') ds,
             negativePosts = labelled (str ''NEGATIVE'') ds,
             neutralPosts = labelled (str ''NEUTRAL'') ds,
             mixedPosts = labelled (str ''MIXED'') ds,
             avgPositiveScore = mean rnd (map (confidence Positive) ds),
             avgNegativeScore = mean rnd (map (confidence Negative) ds),
             avgNeutralScore = mean rnd (map (confidence Neutral) ds),
             avgMixedScore = mean rnd (map (confidence Mixed) ds)\<rparr> sub mainTopic
     = resultRecord rnd q sub (Some mainTopic) True ds"
  by (simp add: subtopicItem_def resultRecord_def)

lemma main_put:
  assumes "searchPosts e (Topic qd) (PostsToAnalyze qd) = Inr posts"
  shows "filter isPut (snd (mainTopicPhase e q qd n)) =
          (if scoredData e posts = [] then []
           else [PutData (resultRecord (roundToDouble e) q (Topic qd) None False (scoredData e posts))
                   (succeeded (PutCommand_Data e
                      (resultRecord (roundToDouble e) q (Topic qd) None False (scoredData e posts))))])"
  by (simp add: mainTopicPhase_unfold Let_def analyze_summary[OF assms] summarize_scored
        no_put_analyze no_put_firstRun main_record)

lemma subtopic_put:
  assumes "searchPosts e sub (PostsToAnalyze qd) = Inr posts"
  shows "filter isPut (analyzeSubtopic e q qd sub) =
          (if scoredData e posts = [] then []
           else [PutData (resultRecord (roundToDouble e) q sub (Some (Topic qd)) True (scoredData e posts))
                   (succeeded (PutCommand_Data e
                      (resultRecord (roundToDouble e) q sub (Some (Topic qd)) True (scoredData e posts))))])"
  by (simp add: analyzeSubtopic_unfold Let_def analyze_summary[OF assms] summarize_scored
        no_put_analyze subtopic_record)

lemma main_put_rejected:
  "searchPosts e (Topic qd) (PostsToAnalyze qd) = Inl msg \<Longrightarrow>
     filter isPut (snd (mainTopicPhase e q qd n)) = []"
  by (simp add: mainTopicPhase_unfold Let_def analyze_rejected)

lemma subtopic_put_rejected:
  "searchPosts e sub (PostsToAnalyze qd) = Inl msg \<Longrightarrow>
     filter isPut (analyzeSubtopic e q qd sub) = []"
  by (simp add: analyzeSubtopic_unfold Let_def analyze_rejected)

lemma foldl_plus: "foldl (\<lambda>total x. total + x) a xs = a + sum_list xs" for a :: real
  by (induction xs arbitrary: a) simp_all

lemma mean_exact: "(\<And>x. rnd x = x) \<Longrightarrow> mean rnd xs = sum_list xs / real (length xs)"
  by (simp add: mean_def foldl_plus)

text \<open>
  Claim C6.  For every analysis batch of a search term, the summary and the Result
  record that is put for it are computed over the successfully scored posts only: the
  analysed count is their number, each category count is the number of them with that
  label, and each average confidence is their mean in the arithmetic of doubles (the
  running sum over them in post order, divided by their number; the arithmetic mean
  where the rounding changes nothing), so a post without text or with a rejected scoring
  call enters neither numerator nor denominator.  The main-topic step and the subtopic
  step each issue one put, of exactly that record, when a post of the batch was
  successfully scored; when none was, or when the search is rejected, there is no summary
  and no put for that term.
\<close>

theorem C6_summary_over_scored_posts:
  "(searchPosts e term limit = Inr posts \<longrightarrow>
      fst (fst (analyzeSentimentForTerm e term limit q)) =
        (let ds = scoredData e posts
         in if ds = [] then None
            else Some \<lparr>summary_queryId = q, summary_topic = term,
                       totalPostsAnalyzed = length ds,
                       positivePosts = labelled (str ''POSITIVE'') ds,
                       negativePosts = labelled (str ''NEGATIVE'') ds,
                       neutralPosts = labelled (str ''NEUTRAL'') ds,
                       mixedPosts = labelled (str ''MIXED'') ds,
                       avgPositiveScore = mean (roundToDouble e) (map (confidence Positive) ds),
                       avgNegativeScore = mean (roundToDouble e) (map (confidence Negative) ds),
                       avgNeutralScore = mean (roundToDouble e) (map (confidence Neutral) ds),
                       avgMixedScore = mean (roundToDouble e) (map (confidence Mixed) ds)\<rparr>))
   \<and> (searchPosts e (Topic qd) (PostsToAnalyze qd) = Inr mposts \<longrightarrow>
        filter isPut (snd (mainTopicPhase e q qd n)) =
          (if scoredData e mposts = [] then []
           else [PutData (resultRecord (roundToDouble e) q (Topic qd) None False (scoredData e mposts))
                   (succeeded (PutCommand_Data e
                      (resultRecord (roundToDouble e) q (Topic qd) None False (scoredData e mposts))))]))
   \<and> (searchPosts e sub (PostsToAnalyze qd) = Inr sposts \<longrightarrow>
        filter isPut (analyzeSubtopic e q qd sub) =
          (if scoredData e sposts = [] then []
           else [PutData (resultRecord (roundToDouble e) q sub (Some (Topic qd)) True (scoredData e sposts))
                   (succeeded (PutCommand_Data e
                      (resultRecord (roundToDouble e) q sub (Some (Topic qd)) True (scoredData e sposts))))]))
   \<and> (searchPosts e (Topic qd) (PostsToAnalyze qd) = Inl msg \<longrightarrow>
        filter isPut (snd (mainTopicPhase e q qd n)) = [])
   \<and> (searchPosts e sub (PostsToAnalyze qd) = Inl msg' \<longrightarrow>
        filter isPut (analyzeSubtopic e q qd sub) = [])
   \<and> ((\<forall>x. rnd x = x) \<longrightarrow> mean rnd xs = sum_list xs / real (length xs))"
proof (intro conjI impI)
  assume "searchPosts e term limit = Inr posts"
  then show "fst (fst (analyzeSentimentForTerm e term limit q)) =
        (let ds = scoredData e posts
         in if ds = [] then None
            else Some \<lparr>summary_queryId = q, summary_topic = term,
                       totalPostsAnalyzed = length ds,
                       positivePosts = labelled (str ''POSITIVE'') ds,
                       negativePosts = labelled (str ''NEGATIVE'') ds,
                       neutralPosts = labelled (str ''NEUTRAL'') ds,
                       mixedPosts = labelled (str ''MIXED'') ds,
                       avgPositiveScore = mean (roundToDouble e) (map (confidence Positive) ds),
                       avgNegativeScore = mean (roundToDouble e) (map (confidence Negative) ds),
                       avgNeutralScore = mean (roundToDouble e) (map (confidence Neutral) ds),
                       avgMixedScore = mean (roundToDouble e) (map (confidence Mixed) ds)\<rparr>)"
    by (simp only: analyze_summary summarize_scored)
next
  assume "searchPosts e (Topic qd) (PostsToAnalyze qd) = Inr mposts"
  then show "filter isPut (snd (mainTopicPhase e q qd n)) =
          (if scoredData e mposts = [] then []
           else [PutData (resultRecord (roundToDouble e) q (Topic qd) None False (scoredData e mposts))
                   (succeeded (PutCommand_Data e
                      (resultRecord (roundToDouble e) q (Topic qd) None False (scoredData e mposts))))])"
    by (rule main_put)
next
  assume "searchPosts e sub (PostsToAnalyze qd) = Inr sposts"
  then show "filter isPut (analyzeSubtopic e q qd sub) =
          (if scoredData e sposts = [] then []
           else [PutData (resultRecord (roundToDouble e) q sub (Some (Topic qd)) True (scoredData e sposts))
                   (succeeded (PutCommand_Data e
                      (resultRecord (roundToDouble e) q sub (Some (Topic qd)) True (scoredData e sposts))))])"
    by (rule subtopic_put)
next
  assume "searchPosts e (Topic qd) (PostsToAnalyze qd) = Inl msg"
  then show "filter isPut (snd (mainTopicPhase e q qd n)) = []" by (rule main_put_rejected)
next
  assume "searchPosts e sub (PostsToAnalyze qd) = Inl msg'"
  then show "filter isPut (analyzeSubtopic e q qd sub) = []" by (rule subtopic_put_rejected)
next
  assume "\<forall>x. rnd x = x"
  then show "mean rnd xs = sum_list xs / real (length xs)" by (simp add: mean_exact)
qed

theorem C6_summary_over_scored_posts_witness:
  "searchPosts env0 (str ''jazz'') 5 = Inr posts_jazz
   \<and> scoredData env0 posts_jazz = [sd (str ''POSITIVE'') (3/4), sd (str ''NEUTRAL'') (1/4)]
   \<and> fst (fst (analyzeSentimentForTerm env0 (str ''jazz'') 5 7)) =
       Some \<lparr>summary_queryId = 7, summary_topic = (str ''jazz''), totalPostsAnalyzed = 2,
             positivePosts = 1, negativePosts = 0, neutralPosts = 1, mixedPosts = 0,
             avgPositiveScore = 1 / 2, avgNegativeScore = 1 / 2,
             avgNeutralScore = 0, avgMixedScore = 0\<rparr>
   \<and> searchPosts env0 (Topic qd0) (PostsToAnalyze qd0) = Inr posts_jazz
   \<and> filter isPut (snd (mainTopicPhase env0 7 qd0 1)) =
       [PutData \<lparr>item_QueryID = 7, item_Topic = str ''jazz'', MainTopic = None,
                 PostsAnalyzed = 2, PositivePosts = 1, NegativePosts = 0, NeutralPosts = 1,
                 MixedPosts = 0, AvgPositiveScore = 1 / 2, AvgNegativeScore = 1 / 2,
                 AvgNeutralScore = 0, AvgMixedScore = 0, IsSubtopic = Some False\<rparr> True]
   \<and> searchPosts env0 (str ''quiet'') (PostsToAnalyze qd0) = Inr posts_quiet
   \<and> scoredData env0 posts_quiet = []
   \<and> filter isPut (analyzeSubtopic env0 7 qd0 (str ''quiet'')) = []
   \<and> searchPosts env0 (str ''bad'') (PostsToAnalyze qd0) = Inl (str ''boom'')
   \<and> filter isPut (analyzeSubtopic env0 7 qd0 (str ''bad'')) = []
   \<and> mean (\<lambda>x. x) [3 / 4, 1 / 4] = 1 / 2"
proof -
  have s1: "searchPosts env0 (str ''jazz'') 5 = Inr posts_jazz" by (simp add: env0_def)
  have s2: "searchPosts env0 (Topic qd0) (PostsToAnalyze qd0) = Inr posts_jazz"
    by (simp add: env0_def qd0_def)
  have s3: "searchPosts env0 (str ''quiet'') (PostsToAnalyze qd0) = Inr posts_quiet"
    by (simp add: env0_def qd0_def)
  have s4: "searchPosts env0 (str ''bad'') (PostsToAnalyze qd0) = Inl (str ''boom'')"
    by (simp add: env0_def qd0_def)
  have p: "succeeded (PutCommand_Data env0 it)" for it by (simp add: env0_def succeeded_def)
  have q: "Topic qd0 = str ''jazz''" by (simp add: qd0_def)
  note t1 = C6_summary_over_scored_posts[of env0 "str ''jazz''" 5 posts_jazz 7 qd0 posts_jazz 1
      "str ''quiet''" posts_quiet "str ''x''" "str ''y''" "\<lambda>x. x" "[3 / 4, 1 / 4]"]
  note t2 = C6_summary_over_scored_posts[of env0 "str ''jazz''" 5 posts_jazz 7 qd0 posts_jazz 1
      "str ''bad''" posts_quiet "str ''x''" "str ''boom''" "\<lambda>x. x" "[3 / 4, 1 / 4]"]
  from t1 s1 have a: "fst (fst (analyzeSentimentForTerm env0 (str ''jazz'') 5 7)) =
       Some \<lparr>summary_queryId = 7, summary_topic = (str ''jazz''), totalPostsAnalyzed = 2,
             positivePosts = 1, negativePosts = 0, neutralPosts = 1, mixedPosts = 0,
             avgPositiveScore = 1 / 2, avgNegativeScore = 1 / 2,
             avgNeutralScore = 0, avgMixedScore = 0\<rparr>"
    by (simp add: scored_jazz labelled_def mean_def confidence_def sd_def round_env0)
  from t1 s2 have b: "filter isPut (snd (mainTopicPhase env0 7 qd0 1)) =
       [PutData \<lparr>item_QueryID = 7, item_Topic = str ''jazz'', MainTopic = None,
                 PostsAnalyzed = 2, PositivePosts = 1, NegativePosts = 0, NeutralPosts = 1,
                 MixedPosts = 0, AvgPositiveScore = 1 / 2, AvgNegativeScore = 1 / 2,
                 AvgNeutralScore = 0, AvgMixedScore = 0, IsSubtopic = Some False\<rparr> True]"
    by (simp add: scored_jazz resultRecord_def labelled_def mean_def confidence_def sd_def
          round_env0 p q)
  from t1 s3 have c: "filter isPut (analyzeSubtopic env0 7 qd0 (str ''quiet'')) = []"
    by (simp add: scored_quiet)
  from t2 s4 have d: "filter isPut (analyzeSubtopic env0 7 qd0 (str ''bad'')) = []"
    by simp
  from t1 have m: "mean (\<lambda>x. x) [3 / 4, 1 / 4] = 1 / 2" by simp
  from s1 scored_jazz a s2 b s3 scored_quiet c s4 d m show ?thesis by blast
qed

section \<open>The phrase counts\<close>

lemma bump_keys_sub: "set (map fst (bump m k)) \<subseteq> insert k (set (map fst m))"
  by (induction m k rule: bump.induct) auto

lemma bump_keys:
  "k \<notin> set inheritedNames \<Longrightarrow> set (map fst (bump m k)) = insert k (set (map fst m))"
  by (induction m k rule: bump.induct) (auto simp: inheritedNames_def)

lemma bump_distinct: "distinct (map fst m) \<Longrightarrow> distinct (map fst (bump m k))"
proof (induction m k rule: bump.induct)
  case (1 k)
  then show ?case by simp
next
  case (2 k' v m k)
  then show ?case using bump_keys_sub[of m k] by auto
qed

















lemma distinct_phrases: "distinct (map fst pc) \<Longrightarrow> distinct (map fst (foldl (countPhrase e mainTopic) pc ps))"
proof (induction ps arbitrary: pc)
  case Nil
  then show ?case by simp
next
  case (Cons p ps)
  have "distinct (map fst (countPhrase e mainTopic pc p))"
    using Cons.prems by (simp add: countPhrase_def Let_def bump_distinct)
  from Cons.IH[OF this] show ?case by simp
qed

lemma distinct_posts: "distinct (map fst pc) \<Longrightarrow> distinct (map fst (foldl (countPost e mainTopic) pc kps))"
proof (induction kps arbitrary: pc)
  case Nil
  then show ?case by simp
next
  case (Cons a kps)
  have "distinct (map fst (countPost e mainTopic pc a))"
    using Cons.prems by (simp add: countPost_def distinct_phrases split: option.splits)
  from Cons.IH[OF this] show ?case by simp
qed

lemma distinct_keys: "distinct (map fst (phraseCountsOf e mainTopic kps))"
  using distinct_posts[of "[]" e mainTopic kps] by (simp add: phraseCountsOf_def)


section \<open>The selection of the subtopics\<close>
























section \<open>The registration calls\<close>























section \<open>The registered labels\<close>





section \<open>A phrase longer than the label limit\<close>




















section \<open>An inherited property name among the phrases\<close>
















section \<open>The selection in the healthy environment\<close>













section \<open>Registrations behind a first page of other records\<close>





section \<open>A ranking with more phrases than labels\<close>







section \<open>An inherited property name that holds a text\<close>














section \<open>The subtopic labels\<close>




end
